theory Spec2Isabelle
  imports Main "HOL-Library.AList"
begin

section \<open>Python values, exceptions and the operations the sources use\<close>

text \<open>
  The raw provider responses are JSON-shaped: \<open>None\<close>, booleans, integers, strings, lists
  and string-keyed dictionaries. A dictionary is an association list in insertion order;
  a lookup reads the first entry of a key. Floating-point numbers are not represented.
\<close>

datatype pyval =
    PNone
  | PBool bool
  | PInt int
  | PStr string
  | PList "pyval list"
  | PDict "(string \<times> pyval) list"

text \<open>
  Exceptions carry their class and the text that \<open>str(e)\<close> gives. The three Genius classes
  are those of \<open>genius_extract.py\<close>; \<open>OtherError\<close> stands for any other subclass of
  \<open>Exception\<close> that a provider client may raise (its argument is the class name). The texts
  of the built-in exceptions are those of CPython 3.11; they matter only where a statement
  below displays one.
\<close>

datatype exc_class =
    AttributeError
  | TypeError
  | KeyError
  | IndexError
  | ValueError
  | GeniusAPIError
  | ArtistNotFoundError
  | TrackDataError
  | OtherError string

datatype pyexc = Exc exc_class string

fun exc_class_of :: "pyexc \<Rightarrow> exc_class" where
  "exc_class_of (Exc c m) = c"

text \<open>\<open>str(e)\<close>\<close>

fun str_exc :: "pyexc \<Rightarrow> string" where
  "str_exc (Exc c m) = m"

text \<open>
  \<open>isinstance(e, GeniusAPIError)\<close>: \<open>ArtistNotFoundError\<close> and \<open>TrackDataError\<close> are declared
  as subclasses of \<open>GeniusAPIError\<close>.
\<close>

fun is_GeniusAPIError :: "pyexc \<Rightarrow> bool" where
  "is_GeniusAPIError (Exc c m) = (c = GeniusAPIError \<or> c = ArtistNotFoundError \<or> c = TrackDataError)"

text \<open>Sequencing of steps that may raise: the first exception ends the computation.\<close>

fun bind_res :: "pyexc + 'a \<Rightarrow> ('a \<Rightarrow> pyexc + 'b) \<Rightarrow> pyexc + 'b" where
  "bind_res (Inl e) f = Inl e"
| "bind_res (Inr x) f = f x"

text \<open>Python truth value of a value (\<open>if value\<close>, \<open>not value\<close>, \<open>while results\<close>).\<close>

fun truthy :: "pyval \<Rightarrow> bool" where
  "truthy PNone = False"
| "truthy (PBool b) = b"
| "truthy (PInt i) = (i \<noteq> 0)"
| "truthy (PStr s) = (s \<noteq> [])"
| "truthy (PList xs) = (xs \<noteq> [])"
| "truthy (PDict d) = (d \<noteq> [])"

text \<open>The apostrophe that Python's messages and the sources' f-strings put around names.\<close>

abbreviation (input) sq :: string where
  "sq \<equiv> [CHR 0x27]"

fun type_name :: "pyval \<Rightarrow> string" where
  "type_name PNone = ''NoneType''"
| "type_name (PBool b) = ''bool''"
| "type_name (PInt i) = ''int''"
| "type_name (PStr s) = ''str''"
| "type_name (PList xs) = ''list''"
| "type_name (PDict d) = ''dict''"

fun is_dict :: "pyval \<Rightarrow> bool" where
  "is_dict (PDict d) = True"
| "is_dict v = False"

text \<open>Lists and dictionaries cannot be dictionary keys: hashing them raises \<open>TypeError\<close>.\<close>

fun hashable :: "pyval \<Rightarrow> bool" where
  "hashable (PList xs) = False"
| "hashable (PDict d) = False"
| "hashable v = True"

lemma size_map_of_le:
  "map_of d k = Some v \<Longrightarrow> size v \<le> size_list (size_prod (\<lambda>_. 0) size) d"
  by (induction d) (auto split: if_splits)

text \<open>
  Python's \<open>==\<close>. \<open>True == 1\<close> and \<open>False == 0\<close> hold; lists compare elementwise;
  dictionaries compare as mappings, whatever the insertion order.
\<close>

function py_eq :: "pyval \<Rightarrow> pyval \<Rightarrow> bool" where
  "py_eq PNone y = (y = PNone)"
| "py_eq (PBool a) y =
     (case y of PBool b \<Rightarrow> a = b | PInt j \<Rightarrow> (if a then 1 else 0) = j | _ \<Rightarrow> False)"
| "py_eq (PInt i) y =
     (case y of PBool b \<Rightarrow> i = (if b then 1 else 0) | PInt j \<Rightarrow> i = j | _ \<Rightarrow> False)"
| "py_eq (PStr s) y = (y = PStr s)"
| "py_eq (PList xs) y = (case y of PList ys \<Rightarrow> list_all2 py_eq xs ys | _ \<Rightarrow> False)"
| "py_eq (PDict a) y =
     (case y of
        PDict b \<Rightarrow>
          set (map fst a) = set (map fst b) \<and>
          (\<forall>k \<in> set (map fst a).
             case map_of a k of
               None \<Rightarrow> False
             | Some v \<Rightarrow> (case map_of b k of None \<Rightarrow> False | Some w \<Rightarrow> py_eq v w))
      | _ \<Rightarrow> False)"
  by pat_completeness auto
termination
  by (relation "measure (\<lambda>(x, y). size x)")
     (auto simp: size_map_of_le less_Suc_eq_le size_list_estimation')

subsection \<open>\<open>utils.py\<close>: the safe accessor\<close>

text \<open>
  \<open>data.get(key, default)\<close>. Only a dictionary has the method (\<open>AttributeError\<close>
  otherwise, raised before the key is looked at); the key is hashed first (\<open>TypeError\<close> for
  a list or a dictionary); a key that is not a string is in no string-keyed dictionary.
\<close>

fun dict_get :: "pyval \<Rightarrow> pyval \<Rightarrow> pyval \<Rightarrow> pyexc + pyval" where
  "dict_get (PDict d) key dflt =
     (if \<not> hashable key then Inl (Exc TypeError (''unhashable type: '' @ sq @ type_name key @ sq))
      else (case key of
              PStr s \<Rightarrow> (case map_of d s of Some v \<Rightarrow> Inr v | None \<Rightarrow> Inr dflt)
            | _ \<Rightarrow> Inr dflt))"
| "dict_get data key dflt =
     Inl (Exc AttributeError (sq @ type_name data @ sq @ '' object has no attribute '' @ sq @ ''get'' @ sq))"

text \<open>
  \<open>safe_get(data, key, UNKNOWN_VALUE)\<close>: the sentinel is the third parameter, as in the
  source, where it defaults to the module constant of \<open>artist_data.setup\<close>.
\<close>

definition safe_get :: "pyval \<Rightarrow> pyval \<Rightarrow> pyval \<Rightarrow> pyexc + pyval" where
  "safe_get data key UNKNOWN_VALUE = dict_get data key UNKNOWN_VALUE"

text \<open>The \<open>for key in key_path\<close> loop of \<open>extract_value\<close>, with its \<open>break\<close>.\<close>

fun extract_loop :: "pyval \<Rightarrow> pyval list \<Rightarrow> pyval \<Rightarrow> pyexc + pyval" where
  "extract_loop val [] UNKNOWN_VALUE = Inr val"
| "extract_loop val (key # rest) UNKNOWN_VALUE =
     (case safe_get val key UNKNOWN_VALUE of
        Inl e \<Rightarrow> Inl e
      | Inr v \<Rightarrow> if py_eq v UNKNOWN_VALUE then Inr v else extract_loop v rest UNKNOWN_VALUE)"

text \<open>
  \<open>extract_value\<close>: \<open>except AttributeError\<close> returns the sentinel, any other exception
  leaves the function, and the value reached is replaced by the sentinel when it is falsy.
\<close>

definition extract_value :: "pyval \<Rightarrow> pyval list \<Rightarrow> pyval \<Rightarrow> pyexc + pyval" where
  "extract_value data key_path UNKNOWN_VALUE =
     (case extract_loop data key_path UNKNOWN_VALUE of
        Inl e \<Rightarrow> (if exc_class_of e = AttributeError then Inr UNKNOWN_VALUE else Inl e)
      | Inr val \<Rightarrow> Inr (if truthy val then val else UNKNOWN_VALUE))"

definition safe_extract :: "pyval \<Rightarrow> pyval list \<Rightarrow> pyval \<Rightarrow> pyexc + pyval" where
  "safe_extract data key_path UNKNOWN_VALUE = extract_value data key_path UNKNOWN_VALUE"

text \<open>
  What a key path denotes in a response: the plain nested lookup \<open>m[k1][k2]...\<close>, defined
  only while every key is present in a dictionary. The safe accessor is compared with it.
\<close>

fun resolve :: "pyval \<Rightarrow> pyval list \<Rightarrow> pyval option" where
  "resolve v [] = Some v"
| "resolve (PDict d) (PStr s # ks) =
     (case map_of d s of Some w \<Rightarrow> resolve w ks | None \<Rightarrow> None)"
| "resolve v (k # ks) = None"

subsection \<open>\<open>utils.py\<close>: the flattener\<close>

text \<open>
  \<open>d.update(other)\<close>: the entries of \<open>other\<close> are written into \<open>d\<close> in their order; a key
  that \<open>d\<close> has keeps its place and takes the new value, a new key is appended.
\<close>

fun dict_update :: "(string \<times> pyval) list \<Rightarrow> (string \<times> pyval) list \<Rightarrow> (string \<times> pyval) list" where
  "dict_update d [] = d"
| "dict_update d ((k, v) # kvs) = dict_update (AList.update k v d) kvs"

text \<open>
  \<open>flat_nested_dictionary(d, parent_key)\<close>. The source mutates \<open>d\<close> and returns it; the
  model returns the dictionary as it is after the mutation. \<open>d.pop(parent_key, None)\<close>
  deletes the key when it is there and does nothing otherwise.
\<close>

definition flat_nested_dictionary :: "pyval \<Rightarrow> string \<Rightarrow> pyexc + pyval" where
  "flat_nested_dictionary d parent_key =
     bind_res (safe_get d (PStr parent_key) (PDict [])) (\<lambda>nested_dict.
       case d of
         PDict r \<Rightarrow>
           Inr (PDict (AList.delete parent_key
                  (case nested_dict of PDict n \<Rightarrow> dict_update r n | _ \<Rightarrow> r)))
       | _ \<Rightarrow> Inl (Exc AttributeError (sq @ type_name d @ sq @ '' object has no attribute '' @ sq @ ''pop'' @ sq)))"

subsection \<open>Iteration and indexing\<close>

text \<open>
  \<open>for x in v\<close> (also through \<open>tqdm\<close>, which yields the elements of what it wraps, and
  \<open>list.extend\<close>): a list gives its elements, a dictionary its keys, a string its
  characters; anything else raises \<open>TypeError\<close>.
\<close>

fun py_iter :: "pyval \<Rightarrow> pyexc + pyval list" where
  "py_iter (PList xs) = Inr xs"
| "py_iter (PDict d) = Inr (map (\<lambda>kv. PStr (fst kv)) d)"
| "py_iter (PStr s) = Inr (map (\<lambda>c. PStr [c]) s)"
| "py_iter v = Inl (Exc TypeError (sq @ type_name v @ sq @ '' object is not iterable''))"

text \<open>\<open>v[key]\<close> with a string literal as key (\<open>results['items']\<close>, \<open>album['id']\<close>).\<close>

fun subscript_key :: "pyval \<Rightarrow> string \<Rightarrow> pyexc + pyval" where
  "subscript_key (PDict d) k =
     (case map_of d k of Some v \<Rightarrow> Inr v | None \<Rightarrow> Inl (Exc KeyError (sq @ k @ sq)))"
| "subscript_key (PList xs) k =
     Inl (Exc TypeError ''list indices must be integers or slices, not str'')"
| "subscript_key (PStr s) k =
     Inl (Exc TypeError (''string indices must be integers, not '' @ sq @ ''str'' @ sq))"
| "subscript_key v k = Inl (Exc TypeError (sq @ type_name v @ sq @ '' object is not subscriptable''))"

text \<open>\<open>v[0]\<close>. No string-keyed dictionary has the key \<open>0\<close>.\<close>

fun subscript_0 :: "pyval \<Rightarrow> pyexc + pyval" where
  "subscript_0 (PList []) = Inl (Exc IndexError ''list index out of range'')"
| "subscript_0 (PList (x # xs)) = Inr x"
| "subscript_0 (PStr []) = Inl (Exc IndexError ''string index out of range'')"
| "subscript_0 (PStr (c # cs)) = Inr (PStr [c])"
| "subscript_0 (PDict d) = Inl (Exc KeyError ''0'')"
| "subscript_0 v = Inl (Exc TypeError (sq @ type_name v @ sq @ '' object is not subscriptable''))"

text \<open>
  A record builder evaluates the entries of a dictionary literal from top to bottom; each
  entry reads the response through \<open>safe_get\<close> (with the sentinel or an explicit default)
  or through \<open>safe_extract\<close>. \<open>build_fields\<close> is that evaluation for a run of such entries.
\<close>

datatype accessor = Get string | GetOr string pyval | Extract "string list"

fun access :: "pyval \<Rightarrow> pyval \<Rightarrow> accessor \<Rightarrow> pyexc + pyval" where
  "access UNKNOWN_VALUE data (Get k) = safe_get data (PStr k) UNKNOWN_VALUE"
| "access UNKNOWN_VALUE data (GetOr k dflt) = safe_get data (PStr k) dflt"
| "access UNKNOWN_VALUE data (Extract p) = safe_extract data (map PStr p) UNKNOWN_VALUE"

fun build_fields :: "pyval \<Rightarrow> pyval \<Rightarrow> (string \<times> accessor) list \<Rightarrow> pyexc + (string \<times> pyval) list" where
  "build_fields UNKNOWN_VALUE data [] = Inr []"
| "build_fields UNKNOWN_VALUE data ((name, a) # rest) =
     bind_res (access UNKNOWN_VALUE data a) (\<lambda>v.
     bind_res (build_fields UNKNOWN_VALUE data rest) (\<lambda>r. Inr ((name, v) # r)))"

text \<open>A list comprehension whose element expression may raise: left to right, first exception wins.\<close>

fun map_res :: "('a \<Rightarrow> pyexc + 'b) \<Rightarrow> 'a list \<Rightarrow> pyexc + 'b list" where
  "map_res f [] = Inr []"
| "map_res f (x # xs) = bind_res (f x) (\<lambda>y. bind_res (map_res f xs) (\<lambda>ys. Inr (y # ys)))"

subsection \<open>\<open>genius_extract.py\<close>\<close>

text \<open>
  The Genius client is an external collaborator. Its one capability,
  \<open>search_artist(artist_name, max_songs=n_tracks, get_full_info=True)\<close>, is a parameter:
  it raises, returns \<open>None\<close>, or returns an artist object, which is represented by what its
  \<open>to_dict()\<close> gives and is taken to be truthy.
\<close>

type_synonym genius_client = "string \<Rightarrow> int \<Rightarrow> pyexc + pyval option"

definition not_found_message :: "string \<Rightarrow> string" where
  "not_found_message artist_name = ''Artist '' @ sq @ artist_name @ sq @ '' not found on Genius.''"

text \<open>
  \<open>genius_artist_search\<close>. The \<open>raise ArtistNotFoundError\<close> stands inside the \<open>try\<close> whose
  handler is \<open>except Exception\<close>, so the handler receives it as it receives everything else.
\<close>

definition genius_artist_search :: "pyval \<Rightarrow> genius_client \<Rightarrow> string \<Rightarrow> int \<Rightarrow> pyexc + pyval" where
  "genius_artist_search UNKNOWN_VALUE search_artist artist_name n_tracks =
     (case
        bind_res (search_artist artist_name n_tracks) (\<lambda>artist.
          case artist of
            None \<Rightarrow> Inl (Exc ArtistNotFoundError (not_found_message artist_name))
          | Some to_dict \<Rightarrow>
              bind_res (safe_get to_dict (PStr ''name'') UNKNOWN_VALUE) (\<lambda>name.
                if \<not> py_eq name (PStr artist_name)
                then Inl (Exc ArtistNotFoundError (not_found_message artist_name))
                else Inr to_dict))
      of
        Inl e \<Rightarrow>
          Inl (Exc GeniusAPIError
                 (''Error fetching artist '' @ sq @ artist_name @ sq @ '' from Genius API: '' @ str_exc e))
      | Inr r \<Rightarrow> Inr r)"

text \<open>
  The comprehension \<open>[safe_get(artist, 'name') for artist in primary_artists
  if safe_get(artist, 'name') != primary_artist]\<close>.
\<close>

fun other_primary_artists :: "pyval \<Rightarrow> pyval \<Rightarrow> pyval list \<Rightarrow> pyexc + pyval list" where
  "other_primary_artists UNKNOWN_VALUE primary_artist [] = Inr []"
| "other_primary_artists UNKNOWN_VALUE primary_artist (artist # rest) =
     bind_res (safe_get artist (PStr ''name'') UNKNOWN_VALUE) (\<lambda>name.
       if \<not> py_eq name primary_artist
       then bind_res (safe_get artist (PStr ''name'') UNKNOWN_VALUE) (\<lambda>name2.
            bind_res (other_primary_artists UNKNOWN_VALUE primary_artist rest) (\<lambda>names.
              Inr (name2 # names)))
       else other_primary_artists UNKNOWN_VALUE primary_artist rest)"

definition genius_track_fields :: "(string \<times> accessor) list" where
  "genius_track_fields =
     [(''genius_track_id'', Get ''id''),
      (''genius_title'', Get ''title''),
      (''genius_release_date'', Get ''release_date''),
      (''genius_album'', Get ''album''),
      (''genius_track_api_path'', Get ''api_path''),
      (''genius_pageviews'', Extract [''stats'', ''pageviews'']),
      (''genius_track_url'', Get ''url''),
      (''genius_track_image_url'', Get ''song_art_image_url''),
      (''genius_track_language'', Get ''language''),
      (''genius_track_description'', Extract [''description'', ''plain'']),
      (''genius_lyrics'', Get ''lyrics''),
      (''genius_lyrics_is_complete'', Get ''lyrics_state'')]"

text \<open>
  \<open>build_genius_artist_track\<close>. The bare \<open>return\<close> for the empty mapping gives \<open>None\<close>;
  everything after it is inside \<open>try ... except Exception\<close>, which re-raises as
  \<open>TrackDataError\<close>.
\<close>

definition build_genius_artist_track :: "pyval \<Rightarrow> pyval \<Rightarrow> pyexc + pyval" where
  "build_genius_artist_track UNKNOWN_VALUE genius_artist_track =
     (if py_eq genius_artist_track (PDict []) then Inr PNone
      else
        (case
           bind_res (safe_extract genius_artist_track [PStr ''primary_artist'', PStr ''name''] UNKNOWN_VALUE)
             (\<lambda>primary_artist.
           bind_res (safe_get genius_artist_track (PStr ''primary_artists'') (PList []))
             (\<lambda>primary_artists.
           bind_res (build_fields UNKNOWN_VALUE genius_artist_track genius_track_fields)
             (\<lambda>fields.
           bind_res (py_iter primary_artists)
             (\<lambda>artists.
           bind_res (other_primary_artists UNKNOWN_VALUE primary_artist artists)
             (\<lambda>names.
           bind_res (safe_get genius_artist_track (PStr ''featured_artists'') (PList []))
             (\<lambda>featured.
               Inr (PDict (fields @
                      [(''primary_artist'', primary_artist),
                       (''primary_artists'', PList names),
                       (''genius_featured_artists'', featured)]))))))))
         of
           Inl e \<Rightarrow> Inl (Exc TrackDataError (''Error occurred while building track data: '' @ str_exc e))
         | Inr r \<Rightarrow> Inr r))"

definition genius_artist_fields :: "(string \<times> accessor) list" where
  "genius_artist_fields =
     [(''genius_artist_id'', Get ''id''),
      (''genius_artist_name'', Get ''name''),
      (''genius_alternate_names'', GetOr ''alternate_names'' (PList [])),
      (''genius_artist_api_path'', Get ''api_path''),
      (''genius_artist_url'', Get ''url''),
      (''genius_artist_image_url'', Get ''image_url''),
      (''genius_artist_description'', Extract [''description'', ''plain'']),
      (''genius_twitter_name'', Get ''twitter_name''),
      (''genius_facebook_name'', Get ''facebook_name''),
      (''genius_instagram_name'', Get ''instagram_name''),
      (''genius_is_verified'', Get ''is_verified'')]"

text \<open>
  \<open>build_genius_artist_data\<close>: the whole dictionary literal is inside
  \<open>try ... except Exception\<close>, which re-raises as \<open>TrackDataError\<close>; an exception of
  \<open>build_genius_artist_track\<close> goes through this handler too.
\<close>

definition build_genius_artist_data :: "pyval \<Rightarrow> pyval \<Rightarrow> pyexc + pyval" where
  "build_genius_artist_data UNKNOWN_VALUE genius_artist_search_result =
     (case
        bind_res (build_fields UNKNOWN_VALUE genius_artist_search_result genius_artist_fields)
          (\<lambda>fields.
        bind_res (safe_get genius_artist_search_result (PStr ''songs'') (PDict []))
          (\<lambda>songs.
        bind_res (py_iter songs)
          (\<lambda>tracks.
        bind_res (map_res (build_genius_artist_track UNKNOWN_VALUE) tracks)
          (\<lambda>built.
            Inr (PDict (fields @ [(''genius_tracks'', PList built)]))))))
      of
        Inl e \<Rightarrow> Inl (Exc TrackDataError (''Error occurred while building artist data: '' @ str_exc e))
      | Inr r \<Rightarrow> Inr r)"

text \<open>\<open>{key: value for key, value in d.items() if key != 'genius_tracks'}\<close>\<close>

fun without_tracks :: "pyval \<Rightarrow> pyexc + pyval" where
  "without_tracks (PDict d) = Inr (PDict (filter (\<lambda>kv. fst kv \<noteq> ''genius_tracks'') d))"
| "without_tracks v =
     Inl (Exc AttributeError (sq @ type_name v @ sq @ '' object has no attribute '' @ sq @ ''items'' @ sq))"

text \<open>
  \<open>fetch_genius_artist_data\<close>: the first handler re-raises the three Genius classes as they
  are, the second turns anything else into \<open>GeniusAPIError\<close>.
\<close>

definition fetch_genius_artist_data :: "pyval \<Rightarrow> genius_client \<Rightarrow> string \<Rightarrow> int \<Rightarrow> pyexc + pyval" where
  "fetch_genius_artist_data UNKNOWN_VALUE search_artist artist_name n_tracks =
     (case
        bind_res (genius_artist_search UNKNOWN_VALUE search_artist artist_name n_tracks)
          (\<lambda>genius_artist.
        bind_res (build_genius_artist_data UNKNOWN_VALUE genius_artist)
          (\<lambda>genius_artist_data.
        bind_res (without_tracks genius_artist_data)
          (\<lambda>artist_data.
        bind_res (safe_get genius_artist_data (PStr ''genius_tracks'') (PDict []))
          (\<lambda>artist_tracks.
            Inr (PDict [(''artist_data'', artist_data), (''artist_tracks'', artist_tracks)])))))
      of
        Inl e \<Rightarrow>
          (if is_GeniusAPIError e then Inl e
           else Inl (Exc GeniusAPIError (''Unexpected error: '' @ str_exc e)))
      | Inr r \<Rightarrow> Inr r)"

subsection \<open>\<open>spotify_extract.py\<close>\<close>

text \<open>
  The Spotify client is an external collaborator; the capabilities the module calls are the
  fields of a record. Each call raises or returns a value. \<open>sp_next\<close> is the client's
  \<open>next(results)\<close>, which answers from the page it is given.
\<close>

record spotify_client =
  sp_search :: "string \<Rightarrow> pyexc + pyval"
  sp_artist_related_artists :: "pyval \<Rightarrow> pyexc + pyval"
  sp_artist_albums :: "pyval \<Rightarrow> string \<Rightarrow> pyexc + pyval"
  sp_album_tracks :: "pyval \<Rightarrow> pyexc + pyval"
  sp_next :: "pyval \<Rightarrow> pyexc + pyval"
  sp_audio_features :: "pyval \<Rightarrow> pyexc + pyval"

text \<open>
  The pagination loops need not end (a provider may answer with a next page for ever), so a
  function that contains one returns an option: \<open>None\<close> when the call does not return,
  \<open>Some (Inl e)\<close> when it raises, \<open>Some (Inr v)\<close> when it returns \<open>v\<close>.
\<close>

fun bind_out :: "(pyexc + 'a) option \<Rightarrow> ('a \<Rightarrow> (pyexc + 'b) option) \<Rightarrow> (pyexc + 'b) option" where
  "bind_out None f = None"
| "bind_out (Some (Inl e)) f = Some (Inl e)"
| "bind_out (Some (Inr x)) f = f x"

definition spotify_artist_search :: "spotify_client \<Rightarrow> string \<Rightarrow> pyexc + pyval" where
  "spotify_artist_search spotify_client artist_name =
     bind_res (sp_search spotify_client artist_name) (\<lambda>response.
     bind_res (safe_extract response [PStr ''artists'', PStr ''items''] PNone)
       (\<lambda>spotify_artist_search_result.
         if truthy spotify_artist_search_result then subscript_0 spotify_artist_search_result
         else Inl (Exc ValueError (''No artist found with the name '' @ sq @ artist_name @ sq))))"

definition spotify_artist_fields_1 :: "(string \<times> accessor) list" where
  "spotify_artist_fields_1 =
     [(''spotify_artist_id'', Get ''id''),
      (''spotify_artist_name'', Get ''name''),
      (''spotify_artist_uri_path'', Get ''uri''),
      (''spotify_artist_url'', Get ''href'')]"

definition spotify_artist_fields_2 :: "(string \<times> accessor) list" where
  "spotify_artist_fields_2 =
     [(''spotify_artist_n_followers'', Extract [''followers'', ''total'']),
      (''spotify_popularity'', Get ''popularity''),
      (''spotify_artist_genres'', Get ''genres'')]"

text \<open>
  \<open>build_spotify_artist_data\<close>. The image entry indexes what \<open>safe_get\<close> returned with
  \<open>[0]\<close>; the related-artists entry iterates what \<open>safe_get\<close> returned.
\<close>

definition build_spotify_artist_data :: "pyval \<Rightarrow> spotify_client \<Rightarrow> pyval \<Rightarrow> pyexc + pyval" where
  "build_spotify_artist_data UNKNOWN_VALUE spotify_client spotify_artist_search_result =
     bind_res (build_fields UNKNOWN_VALUE spotify_artist_search_result spotify_artist_fields_1)
       (\<lambda>fields_1.
     bind_res (safe_get spotify_artist_search_result (PStr ''images'') UNKNOWN_VALUE)
       (\<lambda>images.
     bind_res (subscript_0 images)
       (\<lambda>image.
     bind_res (safe_get image (PStr ''url'') UNKNOWN_VALUE)
       (\<lambda>image_url.
     bind_res (build_fields UNKNOWN_VALUE spotify_artist_search_result spotify_artist_fields_2)
       (\<lambda>fields_2.
     bind_res (safe_get spotify_artist_search_result (PStr ''id'') UNKNOWN_VALUE)
       (\<lambda>artist_id.
     bind_res (sp_artist_related_artists spotify_client artist_id)
       (\<lambda>related.
     bind_res (safe_get related (PStr ''artists'') UNKNOWN_VALUE)
       (\<lambda>related_artists.
     bind_res (py_iter related_artists)
       (\<lambda>artists.
     bind_res (map_res (\<lambda>artist_related. safe_get artist_related (PStr ''name'') UNKNOWN_VALUE) artists)
       (\<lambda>names.
         Inr (PDict (fields_1 @ [(''spotify_artist_image_url'', image_url)] @ fields_2 @
                     [(''spotify_related_artists'', PList names)]))))))))))))"

text \<open>\<open>','.join(album_types)\<close>\<close>

fun join_comma :: "string list \<Rightarrow> string" where
  "join_comma [] = []"
| "join_comma [x] = x"
| "join_comma (x # y # ys) = x @ '','' @ join_comma (y # ys)"

text \<open>
  The loop that \<open>get_artist_albums\<close> and \<open>get_album_tracks\<close> both contain:
  \<open>while results: acc.extend(results['items']); if results['next']: results =
  client.next(results) else: break\<close>.
\<close>

partial_function (option) accumulate_pages ::
  "(pyval \<Rightarrow> pyexc + pyval) \<Rightarrow> pyval list \<Rightarrow> pyval \<Rightarrow> (pyexc + pyval list) option" where
  "accumulate_pages next_page acc results =
     (if truthy results then
        (case subscript_key results ''items'' of
           Inl e \<Rightarrow> Some (Inl e)
         | Inr items \<Rightarrow>
             (case py_iter items of
                Inl e \<Rightarrow> Some (Inl e)
              | Inr xs \<Rightarrow>
                  (case subscript_key results ''next'' of
                     Inl e \<Rightarrow> Some (Inl e)
                   | Inr n \<Rightarrow>
                       if truthy n then
                         (case next_page results of
                            Inl e \<Rightarrow> Some (Inl e)
                          | Inr results2 \<Rightarrow> accumulate_pages next_page (acc @ xs) results2)
                       else Some (Inr (acc @ xs)))))
      else Some (Inr acc))"

text \<open>
  \<open>{album['id']: album for album in albums}\<close>: a dictionary keyed by values. Writing a key
  that is already there (by \<open>==\<close>) replaces the value and keeps the entry's place and key;
  a new key is appended.
\<close>

fun pydict_set :: "(pyval \<times> pyval) list \<Rightarrow> pyval \<Rightarrow> pyval \<Rightarrow> (pyval \<times> pyval) list" where
  "pydict_set [] k v = [(k, v)]"
| "pydict_set ((k2, v2) # rest) k v =
     (if py_eq k2 k then (k2, v) # rest else (k2, v2) # pydict_set rest k v)"

fun unique_by_id :: "(pyval \<times> pyval) list \<Rightarrow> pyval list \<Rightarrow> pyexc + (pyval \<times> pyval) list" where
  "unique_by_id acc [] = Inr acc"
| "unique_by_id acc (album # rest) =
     bind_res (subscript_key album ''id'') (\<lambda>k.
       if hashable k then unique_by_id (pydict_set acc k album) rest
       else Inl (Exc TypeError (''unhashable type: '' @ sq @ type_name k @ sq)))"

definition get_artist_albums :: "spotify_client \<Rightarrow> pyval \<Rightarrow> string list \<Rightarrow> (pyexc + pyval list) option" where
  "get_artist_albums spotify_client artist_id album_types =
     bind_out (Some (sp_artist_albums spotify_client artist_id (join_comma album_types))) (\<lambda>results.
     bind_out (accumulate_pages (sp_next spotify_client) [] results) (\<lambda>albums.
       Some (bind_res (unique_by_id [] albums) (\<lambda>unique_albums. Inr (map snd unique_albums)))))"

definition get_album_tracks :: "spotify_client \<Rightarrow> pyval \<Rightarrow> (pyexc + pyval list) option" where
  "get_album_tracks spotify_client album_id =
     bind_out (Some (sp_album_tracks spotify_client album_id)) (\<lambda>results.
       accumulate_pages (sp_next spotify_client) [] results)"

text \<open>\<open>{**track, 'spotify_album_id': album_id}\<close>\<close>

fun with_album_id :: "pyval \<Rightarrow> pyval \<Rightarrow> pyexc + pyval" where
  "with_album_id album_id (PDict d) = Inr (PDict (AList.update ''spotify_album_id'' album_id d))"
| "with_album_id album_id v = Inl (Exc TypeError (sq @ type_name v @ sq @ '' object is not a mapping''))"

text \<open>The \<open>for album in albums\<close> loop of \<open>get_all_tracks_of_artist\<close> (the \<open>print\<close> is left out).\<close>

fun album_tracks_loop ::
  "pyval \<Rightarrow> spotify_client \<Rightarrow> pyval list \<Rightarrow> pyval list \<Rightarrow> (pyexc + pyval list) option" where
  "album_tracks_loop UNKNOWN_VALUE spotify_client all_tracks [] = Some (Inr all_tracks)"
| "album_tracks_loop UNKNOWN_VALUE spotify_client all_tracks (album # rest) =
     bind_out (Some (safe_get album (PStr ''id'') UNKNOWN_VALUE)) (\<lambda>album_id.
     bind_out (get_album_tracks spotify_client album_id) (\<lambda>tracks.
     bind_out (Some (map_res (with_album_id album_id) tracks)) (\<lambda>tracks2.
       album_tracks_loop UNKNOWN_VALUE spotify_client (all_tracks @ tracks2) rest)))"

definition get_all_tracks_of_artist :: "pyval \<Rightarrow> spotify_client \<Rightarrow> pyval \<Rightarrow> (pyexc + pyval list) option" where
  "get_all_tracks_of_artist UNKNOWN_VALUE spotify_client artist_id =
     bind_out (get_artist_albums spotify_client artist_id [''album'', ''single''])
       (album_tracks_loop UNKNOWN_VALUE spotify_client [])"

definition spotify_track_fields :: "(string \<times> accessor) list" where
  "spotify_track_fields =
     [(''spotify_track_id'', Get ''id''),
      (''spotify_track_name'', Get ''name''),
      (''spotify_track_uri'', Get ''uri''),
      (''spotify_track_url'', Get ''href''),
      (''track_number'', Get ''track_number''),
      (''spotify_album_id'', Get ''spotify_album_id'')]"

text \<open>The dictionary literal appended for one track in \<open>build_spotify_artist_tracks\<close>.\<close>

definition spotify_track_entry :: "pyval \<Rightarrow> spotify_client \<Rightarrow> pyval \<Rightarrow> pyval \<Rightarrow> pyexc + pyval" where
  "spotify_track_entry UNKNOWN_VALUE spotify_client spotify_artist_id track =
     bind_res (build_fields UNKNOWN_VALUE track spotify_track_fields) (\<lambda>fields.
     bind_res (safe_get track (PStr ''id'') UNKNOWN_VALUE) (\<lambda>track_id.
     bind_res
       (if \<not> py_eq track_id UNKNOWN_VALUE
        then bind_res (safe_get track (PStr ''id'') UNKNOWN_VALUE) (\<lambda>track_id2.
             bind_res (sp_audio_features spotify_client track_id2) subscript_0)
        else Inr (PDict []))
       (\<lambda>features.
         Inr (PDict ((''spotify_artist_id'', spotify_artist_id) # fields @
                     [(''track_audio_features_spotify'', features)])))))"

definition build_spotify_artist_tracks :: "pyval \<Rightarrow> spotify_client \<Rightarrow> pyval \<Rightarrow> (pyexc + pyval list) option" where
  "build_spotify_artist_tracks UNKNOWN_VALUE spotify_client spotify_artist_id =
     bind_out (get_all_tracks_of_artist UNKNOWN_VALUE spotify_client spotify_artist_id) (\<lambda>tracks.
     bind_out (Some (map_res (spotify_track_entry UNKNOWN_VALUE spotify_client spotify_artist_id) tracks))
       (\<lambda>spotify_artist_tracks.
         Some (map_res (\<lambda>track. flat_nested_dictionary track ''track_audio_features_spotify'')
                 spotify_artist_tracks)))"

text \<open>\<open>fetch_spotify_artist_data\<close>: the three steps in sequence, with no \<open>try\<close> around them.\<close>

definition fetch_spotify_artist_data :: "pyval \<Rightarrow> spotify_client \<Rightarrow> string \<Rightarrow> (pyexc + pyval) option" where
  "fetch_spotify_artist_data UNKNOWN_VALUE spotify_client artist_name =
     bind_out (Some (spotify_artist_search spotify_client artist_name)) (\<lambda>spotify_artist_search_result.
     bind_out (Some (build_spotify_artist_data UNKNOWN_VALUE spotify_client spotify_artist_search_result))
       (\<lambda>spotify_artist_data.
     bind_out (Some (subscript_key spotify_artist_data ''spotify_artist_id'')) (\<lambda>spotify_artist_id.
     bind_out (build_spotify_artist_tracks UNKNOWN_VALUE spotify_client spotify_artist_id)
       (\<lambda>spotify_artist_tracks.
         Some (Inr (PDict [(''artist_data'', spotify_artist_data),
                           (''artist_tracks'', PList spotify_artist_tracks)]))))))"

text \<open>
  A finite run of pages, as seen by the loop: \<open>page_chain next_page p pages\<close> holds when,
  starting at \<open>p\<close>, the provider serves exactly the pages whose item lists are \<open>pages\<close>, in
  this order, and then stops (a falsy next-page marker, or a falsy page).
\<close>

fun page_chain :: "(pyval \<Rightarrow> pyexc + pyval) \<Rightarrow> pyval \<Rightarrow> pyval list list \<Rightarrow> bool" where
  "page_chain next_page p [] = (\<not> truthy p)"
| "page_chain next_page p (xs # rest) =
     (truthy p \<and>
      (case subscript_key p ''items'' of
         Inl e \<Rightarrow> False
       | Inr items \<Rightarrow>
           py_iter items = Inr xs \<and>
           (case subscript_key p ''next'' of
              Inl e \<Rightarrow> False
            | Inr n \<Rightarrow>
                if truthy n then
                  (case next_page p of Inl e \<Rightarrow> False | Inr p2 \<Rightarrow> page_chain next_page p2 rest)
                else rest = [])))"

text \<open>The identifier field of an item, for stating what the deduplication keeps.\<close>

fun item_id :: "pyval \<Rightarrow> pyval option" where
  "item_id (PDict d) = map_of d ''id''"
| "item_id v = None"

subsection \<open>Notions used to state the properties\<close>

text \<open>The top-level key of the response that an entry of a record builder reads.\<close>

fun field_key :: "accessor \<Rightarrow> string option" where
  "field_key (Get k) = Some k"
| "field_key (GetOr k dflt) = Some k"
| "field_key (Extract []) = None"
| "field_key (Extract (k # ks)) = Some k"

text \<open>What the entry yields when that key is absent: the sentinel, or the explicit default.\<close>

fun field_default :: "pyval \<Rightarrow> accessor \<Rightarrow> pyval" where
  "field_default UNKNOWN_VALUE (Get k) = UNKNOWN_VALUE"
| "field_default UNKNOWN_VALUE (GetOr k dflt) = dflt"
| "field_default UNKNOWN_VALUE (Extract p) = UNKNOWN_VALUE"

text \<open>The name that a listed artist carries, the sentinel when it carries none.\<close>

fun listed_name :: "pyval \<Rightarrow> pyval \<Rightarrow> pyval" where
  "listed_name UNKNOWN_VALUE (PDict a) = (case map_of a ''name'' of Some v \<Rightarrow> v | None \<Rightarrow> UNKNOWN_VALUE)"
| "listed_name UNKNOWN_VALUE v = UNKNOWN_VALUE"

text \<open>Two items carry the same identifier (under \<open>==\<close>).\<close>

definition id_matches :: "pyval \<Rightarrow> pyval \<Rightarrow> bool" where
  "id_matches k x = (case item_id x of Some k2 \<Rightarrow> py_eq k2 k | None \<Rightarrow> False)"

definition same_id :: "pyval \<Rightarrow> pyval \<Rightarrow> bool" where
  "same_id x y = (case item_id y of Some k \<Rightarrow> id_matches k x | None \<Rightarrow> False)"

text \<open>An item that carries an identifier that can be a dictionary key.\<close>

definition has_id :: "pyval \<Rightarrow> bool" where
  "has_id x = (case item_id x of Some k \<Rightarrow> hashable k | None \<Rightarrow> False)"

text \<open>The last element of a list that satisfies a predicate.\<close>

fun last_match :: "('a \<Rightarrow> bool) \<Rightarrow> 'a list \<Rightarrow> 'a option" where
  "last_match P [] = None"
| "last_match P (x # xs) =
     (case last_match P xs of Some y \<Rightarrow> Some y | None \<Rightarrow> if P x then Some x else None)"

text \<open>Reading the value-keyed dictionary of \<open>unique_by_id\<close>, and its invariants.\<close>

fun pydict_lookup :: "(pyval \<times> pyval) list \<Rightarrow> pyval \<Rightarrow> pyval option" where
  "pydict_lookup [] k = None"
| "pydict_lookup ((k2, v2) # rest) k = (if py_eq k2 k then Some v2 else pydict_lookup rest k)"

fun keys_distinct :: "(pyval \<times> pyval) list \<Rightarrow> bool" where
  "keys_distinct [] = True"
| "keys_distinct ((k, v) # rest) = ((\<forall>kv \<in> set rest. \<not> py_eq k (fst kv)) \<and> keys_distinct rest)"

definition entries_ok :: "(pyval \<times> pyval) list \<Rightarrow> bool" where
  "entries_ok acc = (\<forall>kv \<in> set acc. hashable (fst kv) \<and> has_id (snd kv) \<and> id_matches (fst kv) (snd kv))"

subsection \<open>A provider with paged collections\<close>

text \<open>
  A Spotify client for the scenarios below. It serves the albums of an artist in three
  pages of two items, one identifier occurring on the first and on the third page, and the
  tracks of an album in two pages that both hold the identifier \<open>t1\<close>.
\<close>

definition demo_item :: "string \<Rightarrow> int \<Rightarrow> pyval" where
  "demo_item i v = PDict [(''id'', PStr i), (''version'', PInt v)]"

definition demo_page :: "pyval list \<Rightarrow> pyval \<Rightarrow> pyval" where
  "demo_page items next_url = PDict [(''items'', PList items), (''next'', next_url)]"

definition demo_album_page_1 :: pyval where
  "demo_album_page_1 = demo_page [demo_item ''a'' 1, demo_item ''b'' 1] (PStr ''albums?offset=2'')"

definition demo_album_page_2 :: pyval where
  "demo_album_page_2 = demo_page [demo_item ''c'' 1, demo_item ''d'' 1] (PStr ''albums?offset=4'')"

definition demo_album_page_3 :: pyval where
  "demo_album_page_3 = demo_page [demo_item ''e'' 1, demo_item ''a'' 3] PNone"

definition demo_track_page_1 :: pyval where
  "demo_track_page_1 = demo_page [demo_item ''t1'' 1] (PStr ''tracks?offset=1'')"

definition demo_track_page_2 :: pyval where
  "demo_track_page_2 = demo_page [demo_item ''t1'' 2] PNone"

definition demo_client :: spotify_client where
  "demo_client =
     \<lparr> sp_search = (\<lambda>artist_name. Inr PNone),
       sp_artist_related_artists = (\<lambda>artist_id. Inr PNone),
       sp_artist_albums = (\<lambda>artist_id album_type. Inr demo_album_page_1),
       sp_album_tracks = (\<lambda>album_id. Inr demo_track_page_1),
       sp_next = (\<lambda>results.
          if results = demo_album_page_1 then Inr demo_album_page_2
          else if results = demo_album_page_2 then Inr demo_album_page_3
          else if results = demo_track_page_1 then Inr demo_track_page_2
          else Inr PNone),
       sp_audio_features = (\<lambda>track_id. Inr (PList [PNone])) \<rparr>"

section \<open>Properties of the safe accessor\<close>

lemma py_eq_refl: "py_eq x x"
proof (induction x)
  case (PList xs)
  then show ?case by (simp add: list_all2_same)
next
  case (PDict d)
  have "py_eq v v" if "map_of d k = Some v" for k v
  proof -
    from that have "(k, v) \<in> set d" by (rule map_of_SomeD)
    then show ?thesis using PDict by fastforce
  qed
  moreover have "map_of d k \<noteq> None" if "k \<in> set (map fst d)" for k
    using that by (simp add: map_of_eq_None_iff)
  ultimately show ?case by (auto split: option.splits)
qed simp_all

lemma py_eq_dict_nondict: "\<not> is_dict u \<Longrightarrow> py_eq (PDict d) u = False"
  by (cases u) auto

lemma extract_loop_only_attribute_error:
  "\<forall>k \<in> set p. hashable k \<Longrightarrow> extract_loop m p u = Inl e \<Longrightarrow> exc_class_of e = AttributeError"
proof (induction p arbitrary: m)
  case Nil
  then show ?case by simp
next
  case (Cons k ks)
  show ?case
  proof (cases m)
    case (PDict d)
    with Cons show ?thesis
      by (auto simp: safe_get_def split: if_splits pyval.splits option.splits)
  qed (use Cons in \<open>auto simp: safe_get_def\<close>)
qed

lemma extract_loop_falsy:
  assumes "\<not> truthy v" "\<forall>k \<in> set q. hashable k"
  shows "extract_loop v q u = Inr v \<or> extract_loop v q u = Inr u
         \<or> (\<exists>e. extract_loop v q u = Inl e \<and> exc_class_of e = AttributeError)"
proof (cases q)
  case Nil
  then show ?thesis by simp
next
  case (Cons k ks)
  show ?thesis
  proof (cases v)
    case (PDict d)
    with assms have "d = []" by simp
    with PDict Cons assms show ?thesis
      by (auto simp: safe_get_def py_eq_refl split: pyval.splits)
  qed (use Cons in \<open>auto simp: safe_get_def\<close>)
qed

lemma extract_loop_resolve:
  "resolve m p1 = Some v \<Longrightarrow>
   extract_loop m (p1 @ q) u = extract_loop v q u
   \<or> (\<exists>w. extract_loop m (p1 @ q) u = Inr w \<and> py_eq w u \<and> (w = v \<or> is_dict w))"
proof (induction m p1 rule: resolve.induct)
  case (1 v)
  then show ?case by simp
next
  case (2 d s ks)
  then obtain w where w: "map_of d s = Some w" "resolve w ks = Some v"
    by (auto split: option.splits)
  show ?case
  proof (cases "py_eq w u")
    case True
    show ?thesis
    proof (cases ks)
      case Nil
      with w True show ?thesis by (auto simp: safe_get_def)
    next
      case (Cons k ks')
      with w have "is_dict w" by (cases w; cases k) auto
      with w True show ?thesis by (auto simp: safe_get_def)
    qed
  next
    case False
    with 2 w show ?thesis by (auto simp: safe_get_def)
  qed
qed auto

lemma extract_loop_hashable_result:
  assumes "\<forall>k \<in> set p. hashable k"
  shows "\<exists>v. extract_value m p u = Inr v"
proof (cases "extract_loop m p u")
  case (Inl e)
  with extract_loop_only_attribute_error [OF assms Inl] show ?thesis
    by (simp add: extract_value_def)
next
  case (Inr v)
  then show ?thesis by (simp add: extract_value_def)
qed

text \<open>
  C1. Whenever the plain traversal of a prefix of the key path (the whole path included)
  reaches a falsy value, \<open>extract_value\<close> and \<open>safe_extract\<close> return the sentinel and not
  that value: the result is equal (\<open>==\<close>) to the sentinel, and is the sentinel itself for
  every sentinel that is not a dictionary. Keys are hashable values.
\<close>

theorem extract_value_falsy_is_sentinel:
  assumes "resolve m (take n p) = Some v" and "\<not> truthy v" and "\<forall>k \<in> set p. hashable k"
  shows "\<exists>r. extract_value m p u = Inr r \<and> safe_extract m p u = Inr r
             \<and> py_eq r u \<and> (\<not> is_dict u \<longrightarrow> r = u)"
proof -
  have hq: "\<forall>k \<in> set (drop n p). hashable k"
    using assms(3) by (meson in_set_dropD)
  from extract_loop_resolve [OF assms(1), of "drop n p" u]
  consider (cont) "extract_loop m p u = extract_loop v (drop n p) u"
    | (brk) w where "extract_loop m p u = Inr w" "py_eq w u" "w = v \<or> is_dict w"
    by auto
  then show ?thesis
  proof cases
    case cont
    with extract_loop_falsy [OF assms(2) hq, of u] assms(2) show ?thesis
      by (auto simp: extract_value_def safe_extract_def py_eq_refl)
  next
    case brk
    have nd: "\<not> truthy w" if u: "\<not> is_dict u"
    proof (cases "is_dict w")
      case True
      then obtain d where wd: "w = PDict d" by (cases w) auto
      from py_eq_dict_nondict [OF u, of d] brk(2) show ?thesis
        unfolding wd by blast
    next
      case False
      with brk(3) have "w = v" by blast
      with assms(2) show ?thesis by blast
    qed
    show ?thesis
    proof (cases "truthy w")
      case True
      with nd have "is_dict u" by blast
      with brk(1,2) True show ?thesis
        by (simp add: extract_value_def safe_extract_def)
    next
      case False
      with brk(1) show ?thesis
        by (simp add: extract_value_def safe_extract_def py_eq_refl)
    qed
  qed
qed

theorem extract_value_falsy_is_sentinel_witness:
  "\<exists>r. extract_value (PDict [(''a'', PDict [(''b'', PInt 0)])]) [PStr ''a'', PStr ''b''] (PStr ''UNKNOWN'') = Inr r
      \<and> safe_extract (PDict [(''a'', PDict [(''b'', PInt 0)])]) [PStr ''a'', PStr ''b''] (PStr ''UNKNOWN'') = Inr r
      \<and> py_eq r (PStr ''UNKNOWN'')
      \<and> (\<not> is_dict (PStr ''UNKNOWN'') \<longrightarrow> r = PStr ''UNKNOWN'')"
proof -
  have h1: "resolve (PDict [(''a'', PDict [(''b'', PInt 0)])]) (take 2 [PStr ''a'', PStr ''b'']) = Some (PInt 0)"
    by simp
  have h2: "\<not> truthy (PInt 0)" by simp
  have h3: "\<forall>k \<in> set [PStr ''a'', PStr ''b'']. hashable k" by simp
  show ?thesis by (rule extract_value_falsy_is_sentinel [OF h1 h2 h3])
qed

text \<open>
  C8, as stated, fails: a key that cannot be hashed makes \<open>dict.get\<close> raise \<open>TypeError\<close>,
  which \<open>safe_get\<close> does not catch and \<open>extract_value\<close> (catching \<open>AttributeError\<close> only)
  lets through.
\<close>

theorem safe_get_unhashable_key_raises:
  "safe_get (PDict []) (PList []) (PStr ''UNKNOWN'')
     = Inl (Exc TypeError (''unhashable type: '' @ sq @ ''list'' @ sq))
   \<and> extract_value (PDict []) [PList []] (PStr ''UNKNOWN'')
     = Inl (Exc TypeError (''unhashable type: '' @ sq @ ''list'' @ sq))"
  by (simp add: safe_get_def extract_value_def)

lemma extract_value_resolve_truthy:
  assumes "resolve m p = Some v" "truthy v" "\<not> is_dict u"
  shows "extract_value m p u = Inr v"
proof -
  from extract_loop_resolve [OF assms(1), of "[]" u]
  consider "extract_loop m p u = Inr v"
    | w where "extract_loop m p u = Inr w" "py_eq w u" "is_dict w"
    by auto
  then show ?thesis
  proof cases
    case 1
    with assms(2) show ?thesis by (simp add: extract_value_def)
  next
    case 2
    from 2(3) obtain d where "w = PDict d" by (cases w) auto
    with 2(2) py_eq_dict_nondict [OF assms(3), of d] show ?thesis by simp
  qed
qed

lemma py_eq_exact_sentinel:
  "py_eq w u \<Longrightarrow> u = PNone \<or> (\<exists>s. u = PStr s) \<Longrightarrow> w = u"
  by (cases w) auto

lemma extract_loop_unresolved:
  "resolve m p = None \<Longrightarrow> \<forall>k \<in> set p. hashable k \<Longrightarrow>
     (\<exists>e. extract_loop m p u = Inl e \<and> exc_class_of e = AttributeError)
     \<or> (\<exists>w. extract_loop m p u = Inr w \<and> py_eq w u)"
proof (induction p arbitrary: m)
  case Nil
  then show ?case by simp
next
  case (Cons k ks)
  show ?case
  proof (cases m)
    case (PDict d)
    show ?thesis
    proof (cases k)
      case (PStr s)
      show ?thesis
      proof (cases "map_of d s")
        case None
        with PDict PStr show ?thesis by (simp add: safe_get_def py_eq_refl)
      next
        case (Some w)
        with Cons.prems(1) PDict PStr have r: "resolve w ks = None" by simp
        from Cons.prems(2) have h: "\<forall>k \<in> set ks. hashable k" by simp
        show ?thesis
        proof (cases "py_eq w u")
          case True
          with PDict PStr Some show ?thesis by (simp add: safe_get_def)
        next
          case False
          with Cons.IH [OF r h] PDict PStr Some show ?thesis by (simp add: safe_get_def)
        qed
      qed
    next
      case PNone
      with PDict show ?thesis by (simp add: safe_get_def py_eq_refl)
    next
      case (PBool b)
      with PDict show ?thesis by (simp add: safe_get_def py_eq_refl)
    next
      case (PInt i)
      with PDict show ?thesis by (simp add: safe_get_def py_eq_refl)
    next
      case (PList xs)
      with Cons.prems(2) show ?thesis by simp
    next
      case (PDict e)
      with Cons.prems(2) show ?thesis by simp
    qed
  qed (simp_all add: safe_get_def)
qed

lemma extract_value_unresolved:
  assumes "resolve m p = None" "\<forall>k \<in> set p. hashable k" "extract_value m p u = Inr v"
  shows "py_eq v u \<and> (u = PNone \<or> (\<exists>s. u = PStr s) \<longrightarrow> v = u)"
proof -
  from extract_loop_unresolved [OF assms(1,2), of u]
  consider e where "extract_loop m p u = Inl e" "exc_class_of e = AttributeError"
    | w where "extract_loop m p u = Inr w" "py_eq w u" by blast
  then have "py_eq v u"
  proof cases
    case 1
    with assms(3) show ?thesis by (simp add: extract_value_def py_eq_refl)
  next
    case 2
    with assms(3) show ?thesis by (auto simp: extract_value_def py_eq_refl split: if_splits)
  qed
  with py_eq_exact_sentinel [of v u] show ?thesis by blast
qed

text \<open>
  C8, amended. For every mapping and every hashable key (the declared key type is \<open>str\<close>),
  \<open>safe_get\<close> never raises: it returns the stored value when the key is present and the
  supplied default when it is absent. For every input value, mapping or not, and every path
  of hashable keys, \<open>extract_value\<close> and \<open>safe_extract\<close> never raise, and every error
  path degrades to the sentinel: when the path does not resolve (a key is absent, or an
  intermediate value is no mapping) the result is equal (\<open>==\<close>) to the sentinel, and is the
  sentinel itself when the sentinel is a string or \<open>None\<close>. When the path resolves to a
  truthy value, that value is returned (for a sentinel that is no dictionary).
\<close>

theorem safe_accessors_never_raise:
  assumes "hashable key" and "\<forall>k \<in> set key_path. hashable k"
  shows "safe_get (PDict d) key dflt =
           Inr (case key of
                  PStr s \<Rightarrow> (case map_of d s of Some v \<Rightarrow> v | None \<Rightarrow> dflt)
                | _ \<Rightarrow> dflt)
         \<and> (\<exists>v. extract_value data key_path u = Inr v \<and> safe_extract data key_path u = Inr v
                \<and> (resolve data key_path = None \<longrightarrow>
                      py_eq v u \<and> (u = PNone \<or> (\<exists>s. u = PStr s) \<longrightarrow> v = u))
                \<and> (\<forall>w. resolve data key_path = Some w \<and> truthy w \<and> \<not> is_dict u \<longrightarrow> v = w))"
proof -
  from assms(1) have g: "safe_get (PDict d) key dflt =
           Inr (case key of
                  PStr s \<Rightarrow> (case map_of d s of Some v \<Rightarrow> v | None \<Rightarrow> dflt)
                | _ \<Rightarrow> dflt)"
    by (cases key) (auto simp: safe_get_def split: option.splits)
  from extract_loop_hashable_result [OF assms(2)]
  obtain v where v: "extract_value data key_path u = Inr v" by blast
  then have s: "safe_extract data key_path u = Inr v" by (simp add: safe_extract_def)
  have n: "resolve data key_path = None \<longrightarrow>
             py_eq v u \<and> (u = PNone \<or> (\<exists>s. u = PStr s) \<longrightarrow> v = u)"
  proof
    assume "resolve data key_path = None"
    then show "py_eq v u \<and> (u = PNone \<or> (\<exists>s. u = PStr s) \<longrightarrow> v = u)"
      using assms(2) v by (rule extract_value_unresolved)
  qed
  have t: "\<forall>w. resolve data key_path = Some w \<and> truthy w \<and> \<not> is_dict u \<longrightarrow> v = w"
  proof (intro allI impI)
    fix w assume h: "resolve data key_path = Some w \<and> truthy w \<and> \<not> is_dict u"
    then have "extract_value data key_path u = Inr w"
      by (intro extract_value_resolve_truthy) simp_all
    with v show "v = w" by simp
  qed
  show ?thesis
    by (intro conjI exI [of _ v]) (rule g v s n t)+
qed

theorem safe_accessors_never_raise_witness:
  "safe_get (PDict [(''a'', PInt 1)]) (PStr ''missing'') (PStr ''UNKNOWN'') = Inr (PStr ''UNKNOWN'')
   \<and> extract_value (PDict [(''a'', PStr ''not a mapping'')]) [PStr ''a'', PInt 3] (PStr ''UNKNOWN'')
       = Inr (PStr ''UNKNOWN'')
   \<and> safe_extract (PDict [(''a'', PStr ''not a mapping'')]) [PStr ''a'', PInt 3] (PStr ''UNKNOWN'')
       = Inr (PStr ''UNKNOWN'')"
proof -
  let ?u = "PStr ''UNKNOWN''"
  let ?m = "PDict [(''a'', PStr ''not a mapping'')]"
  let ?p = "[PStr ''a'', PInt 3]"
  have h1: "hashable (PStr ''missing'')" by simp
  have h2: "\<forall>k \<in> set ?p. hashable k" by simp
  have r: "resolve ?m ?p = None" by simp
  note t = safe_accessors_never_raise [OF h1 h2, of "[(''a'', PInt 1)]" ?u ?m ?u]
  have g: "safe_get (PDict [(''a'', PInt 1)]) (PStr ''missing'') ?u = Inr ?u"
    using conjunct1 [OF t] by simp
  from conjunct2 [OF t] obtain v where v:
    "extract_value ?m ?p ?u = Inr v \<and> safe_extract ?m ?p ?u = Inr v
       \<and> (resolve ?m ?p = None \<longrightarrow> py_eq v ?u \<and> (?u = PNone \<or> (\<exists>s. ?u = PStr s) \<longrightarrow> v = ?u))
       \<and> (\<forall>w. resolve ?m ?p = Some w \<and> truthy w \<and> \<not> is_dict ?u \<longrightarrow> v = w)" ..
  from v have v1: "extract_value ?m ?p ?u = Inr v" by (rule conjunct1)
  from v have v2: "safe_extract ?m ?p ?u = Inr v" by (rule conjunct1 [OF conjunct2])
  from v have v3: "resolve ?m ?p = None \<longrightarrow>
      py_eq v ?u \<and> (?u = PNone \<or> (\<exists>s. ?u = PStr s) \<longrightarrow> v = ?u)"
    by (rule conjunct1 [OF conjunct2 [OF conjunct2]])
  from v3 r have "py_eq v ?u \<and> (?u = PNone \<or> (\<exists>s. ?u = PStr s) \<longrightarrow> v = ?u)" by (rule mp)
  then have i: "?u = PNone \<or> (\<exists>s. ?u = PStr s) \<longrightarrow> v = ?u" by (rule conjunct2)
  have "\<exists>s. ?u = PStr s" by (rule exI [of _ "''UNKNOWN''"]) (rule refl)
  then have "?u = PNone \<or> (\<exists>s. ?u = PStr s)" by (rule disjI2)
  with i have e: "v = ?u" by (rule mp)
  have e1: "extract_value ?m ?p ?u = Inr ?u" using v1 unfolding e .
  have e2: "safe_extract ?m ?p ?u = Inr ?u" using v2 unfolding e .
  from g e1 e2 show ?thesis by (intro conjI)
qed

section \<open>Properties of the flattener\<close>

lemma map_of_dict_update:
  "distinct (map fst n) \<Longrightarrow> map_of (dict_update d n) = map_of d ++ map_of n"
proof (induction n arbitrary: d)
  case Nil
  then show ?case by simp
next
  case (Cons kv kvs)
  obtain k v where kv: "kv = (k, v)" by (cases kv)
  from Cons.prems kv have nk: "k \<notin> dom (map_of kvs)" and dk: "distinct (map fst kvs)"
    by (auto simp: dom_map_of_conv_image_fst)
  have "map_of (dict_update d (kv # kvs)) = (map_of d)(k \<mapsto> v) ++ map_of kvs"
    by (simp only: kv dict_update.simps Cons.IH [OF dk] AList.update_conv')
  also have "\<dots> = (map_of d ++ map_of kvs)(k \<mapsto> v)"
    by (rule map_add_upd_left [OF nk])
  also have "\<dots> = map_of d ++ map_of (kv # kvs)"
    by (simp only: kv map_of.simps fst_conv snd_conv map_add_upd)
  finally show ?case .
qed

lemma distinct_dict_update:
  "distinct (map fst d) \<Longrightarrow> distinct (map fst (dict_update d n))"
  by (induction d n rule: dict_update.induct) (simp_all add: AList.distinct_update)

text \<open>
  C4. For every record \<open>r\<close> and key \<open>k\<close>, \<open>flat_nested_dictionary\<close> returns a record: \<open>k\<close> is
  gone from it in all cases; when \<open>r[k]\<close> is a mapping, every other key has the nested
  value if the nested mapping has the key and the value of \<open>r\<close> otherwise; when \<open>r[k]\<close> is
  no mapping, every other key has the value of \<open>r\<close>; when \<open>k\<close> is absent the record is
  returned as it was. (A nested mapping has each key once, as every dictionary has.)
\<close>

theorem flat_nested_dictionary_spec:
  assumes "case map_of r k of Some (PDict n) \<Rightarrow> distinct (map fst n) | _ \<Rightarrow> True"
  shows "\<exists>r'. flat_nested_dictionary (PDict r) k = Inr (PDict r')
           \<and> map_of r' k = None
           \<and> (\<forall>j. j \<noteq> k \<longrightarrow>
                 map_of r' j =
                   (case map_of r k of
                      Some (PDict n) \<Rightarrow> (case map_of n j of Some v \<Rightarrow> Some v | None \<Rightarrow> map_of r j)
                    | _ \<Rightarrow> map_of r j))
           \<and> (map_of r k = None \<longrightarrow> r' = r)
           \<and> (distinct (map fst r) \<longrightarrow> distinct (map fst r'))"
proof (cases "map_of r k")
  case None
  then have "k \<notin> fst ` set r" by (simp add: map_of_eq_None_iff)
  with None show ?thesis
    by (simp add: flat_nested_dictionary_def safe_get_def)
next
  case (Some v)
  show ?thesis
  proof (cases v)
    case (PDict n)
    with Some assms have dn: "distinct (map fst n)" by simp
    have "flat_nested_dictionary (PDict r) k = Inr (PDict (AList.delete k (dict_update r n)))"
      using Some PDict by (simp add: flat_nested_dictionary_def safe_get_def)
    moreover have "map_of (AList.delete k (dict_update r n)) k = None"
      by (simp add: AList.delete_conv')
    moreover have "map_of (AList.delete k (dict_update r n)) j =
        (case map_of n j of Some v \<Rightarrow> Some v | None \<Rightarrow> map_of r j)" if "j \<noteq> k" for j
      using that by (simp add: map_of_dict_update [OF dn] map_add_def)
    moreover have "distinct (map fst r) \<Longrightarrow> distinct (map fst (AList.delete k (dict_update r n)))"
      by (simp add: AList.distinct_delete distinct_dict_update)
    ultimately show ?thesis using Some PDict by simp
  next
    case PNone
    with Some show ?thesis
      by (simp add: flat_nested_dictionary_def safe_get_def AList.delete_conv' AList.distinct_delete)
  next
    case (PBool b)
    with Some show ?thesis
      by (simp add: flat_nested_dictionary_def safe_get_def AList.delete_conv' AList.distinct_delete)
  next
    case (PInt i)
    with Some show ?thesis
      by (simp add: flat_nested_dictionary_def safe_get_def AList.delete_conv' AList.distinct_delete)
  next
    case (PStr s)
    with Some show ?thesis
      by (simp add: flat_nested_dictionary_def safe_get_def AList.delete_conv' AList.distinct_delete)
  next
    case (PList xs)
    with Some show ?thesis
      by (simp add: flat_nested_dictionary_def safe_get_def AList.delete_conv' AList.distinct_delete)
  qed
qed

theorem flat_nested_dictionary_spec_witness:
  "\<exists>r'. flat_nested_dictionary
           (PDict [(''id'', PInt 7), (''a'', PInt 0), (''x'', PDict [(''a'', PInt 1), (''b'', PInt 2)])]) ''x''
          = Inr (PDict r')
     \<and> map_of r' ''x'' = None \<and> map_of r' ''a'' = Some (PInt 1) \<and> map_of r' ''b'' = Some (PInt 2)
     \<and> map_of r' ''id'' = Some (PInt 7)"
proof -
  let ?r = "[(''id'', PInt 7), (''a'', PInt 0), (''x'', PDict [(''a'', PInt 1), (''b'', PInt 2)])]"
  have h: "case map_of ?r ''x'' of Some (PDict n) \<Rightarrow> distinct (map fst n) | _ \<Rightarrow> True"
    by simp
  from flat_nested_dictionary_spec [OF h]
  obtain r' where r: "flat_nested_dictionary (PDict ?r) ''x'' = Inr (PDict r')"
    "map_of r' ''x'' = None"
    "\<forall>j. j \<noteq> ''x'' \<longrightarrow>
                 map_of r' j =
                   (case map_of ?r ''x'' of
                      Some (PDict n) \<Rightarrow> (case map_of n j of Some v \<Rightarrow> Some v | None \<Rightarrow> map_of ?r j)
                    | _ \<Rightarrow> map_of ?r j)"
    by blast
  from r(3) have "map_of r' ''a'' = Some (PInt 1)" "map_of r' ''b'' = Some (PInt 2)"
    "map_of r' ''id'' = Some (PInt 7)" by simp_all
  with r(1,2) show ?thesis by blast
qed

section \<open>Properties of the Genius module\<close>

text \<open>
  C2. The search answers the query \<open>Test\<close> with an artist named \<open>Other\<close> (and, in the second
  part, with no artist): the exception that leaves \<open>fetch_genius_artist_data\<close> is a
  \<open>GeniusAPIError\<close> that quotes the not-found message, not an \<open>ArtistNotFoundError\<close>.
\<close>

theorem genius_not_found_is_rewrapped:
  "fetch_genius_artist_data (PStr ''UNKNOWN'')
      (\<lambda>artist_name n_tracks. Inr (Some (PDict [(''id'', PInt 1), (''name'', PStr ''Other'')])))
      ''Test'' 10
   = Inl (Exc GeniusAPIError
        (''Error fetching artist '' @ sq @ ''Test'' @ sq @ '' from Genius API: Artist '' @ sq @ ''Test'' @ sq @ '' not found on Genius.''))
   \<and> genius_artist_search (PStr ''UNKNOWN'') (\<lambda>artist_name n_tracks. Inr None) ''Test'' 10
   = Inl (Exc GeniusAPIError
        (''Error fetching artist '' @ sq @ ''Test'' @ sq @ '' from Genius API: Artist '' @ sq @ ''Test'' @ sq @ '' not found on Genius.''))"
  by (simp add: fetch_genius_artist_data_def genius_artist_search_def safe_get_def not_found_message_def)

subsection \<open>The record builders\<close>

lemma bind_res_Inr_iff:
  "bind_res x f = Inr r \<longleftrightarrow> (\<exists>y. x = Inr y \<and> f y = Inr r)"
  by (cases x) auto

lemma safe_get_dict_str:
  "safe_get (PDict d) (PStr k) dflt = Inr (case map_of d k of Some v \<Rightarrow> v | None \<Rightarrow> dflt)"
  by (simp add: safe_get_def split: option.splits)

lemma safe_get_Inr_is_dict:
  "safe_get t k dflt = Inr v \<Longrightarrow> \<exists>d. t = PDict d"
  by (cases t) (auto simp: safe_get_def)

lemma access_dict_returns: "\<exists>v. access u (PDict d) a = Inr v"
proof (cases a)
  case (Extract p)
  have "\<forall>k \<in> set (map PStr p). hashable k" by simp
  from extract_loop_hashable_result [OF this] Extract show ?thesis
    by (simp add: safe_extract_def)
qed (simp_all add: safe_get_dict_str)

lemma access_absent:
  assumes "field_key a = Some k" "map_of d k = None"
  shows "access u (PDict d) a = Inr (field_default u a)"
proof (cases a)
  case (Extract p)
  with assms(1) obtain ks where p: "p = k # ks" by (cases p) auto
  with Extract assms(2) show ?thesis
    by (simp add: safe_extract_def extract_value_def safe_get_dict_str py_eq_refl)
qed (use assms in \<open>simp_all add: safe_get_dict_str\<close>)

lemma build_fields_dict:
  "\<exists>fs. build_fields u (PDict d) spec = Inr fs \<and> map fst fs = map fst spec
        \<and> (\<forall>out a k. (out, a) \<in> set spec \<and> field_key a = Some k \<and> map_of d k = None
              \<longrightarrow> (out, field_default u a) \<in> set fs)"
proof (induction spec)
  case Nil
  then show ?case by simp
next
  case (Cons oa spec)
  obtain out a where oa: "oa = (out, a)" by (cases oa)
  from access_dict_returns obtain v where v: "access u (PDict d) a = Inr v" by blast
  from Cons obtain fs where fs: "build_fields u (PDict d) spec = Inr fs" "map fst fs = map fst spec"
    "\<forall>out a k. (out, a) \<in> set spec \<and> field_key a = Some k \<and> map_of d k = None
              \<longrightarrow> (out, field_default u a) \<in> set fs" by blast
  have "build_fields u (PDict d) (oa # spec) = Inr ((out, v) # fs)"
    using oa v fs(1) by simp
  moreover have "map fst ((out, v) # fs) = map fst (oa # spec)"
    using oa fs(2) by simp
  moreover have "(out', field_default u a') \<in> set ((out, v) # fs)"
    if "(out', a') \<in> set (oa # spec)" "field_key a' = Some k" "map_of d k = None" for out' a' k
  proof (cases "(out', a') = (out, a)")
    case True
    with access_absent [OF that(2,3), of u] v show ?thesis by simp
  next
    case False
    with that oa fs(3) show ?thesis by auto
  qed
  ultimately show ?case by blast
qed

lemma build_fields_lookup:
  assumes "build_fields u (PDict d) spec = Inr fs" "distinct (map fst spec)"
    "(out, a) \<in> set spec" "field_key a = Some k" "map_of d k = None"
  shows "map_of fs out = Some (field_default u a)"
proof -
  from build_fields_dict [of u d spec] assms(1)
  have m: "map fst fs = map fst spec"
    and "(out, field_default u a) \<in> set fs"
    using assms(3-5) by auto
  moreover from m assms(2) have "distinct (map fst fs)" by simp
  ultimately show ?thesis by (simp add: map_of_is_SomeI)
qed

lemma map_of_append_notin:
  "k \<notin> set (map fst fs) \<Longrightarrow> map_of (fs @ rest) k = map_of rest k"
proof -
  assume "k \<notin> set (map fst fs)"
  then have "map_of fs k = None" by (simp add: map_of_eq_None_iff)
  then show ?thesis by (simp add: map_add_def)
qed

lemma map_of_append_in:
  "k \<in> set (map fst fs) \<Longrightarrow> map_of (fs @ rest) k = map_of fs k"
proof -
  assume "k \<in> set (map fst fs)"
  then have "map_of fs k \<noteq> None" by (simp add: map_of_eq_None_iff)
  then show ?thesis by (auto simp: map_add_def)
qed

lemma py_eq_empty_dict: "py_eq t (PDict []) \<longleftrightarrow> t = PDict []"
  by (cases t) (auto split: pyval.splits)

lemma other_primary_artists_Inr:
  "other_primary_artists u pa artists = Inr names \<Longrightarrow>
     names = filter (\<lambda>n. \<not> py_eq n pa) (map (listed_name u) artists)"
proof (induction artists arbitrary: names)
  case Nil
  then show ?case by simp
next
  case (Cons a as)
  from Cons.prems obtain n where n: "safe_get a (PStr ''name'') u = Inr n"
    by (auto simp: bind_res_Inr_iff)
  then obtain e where a: "a = PDict e" by (blast dest: safe_get_Inr_is_dict)
  with n have ln: "listed_name u a = n" by (simp add: safe_get_dict_str)
  show ?case
  proof (cases "py_eq n pa")
    case True
    with Cons n ln show ?thesis by simp
  next
    case False
    with Cons.prems n obtain ns where "other_primary_artists u pa as = Inr ns" "names = n # ns"
      by (auto simp: bind_res_Inr_iff)
    with Cons.IH False ln show ?thesis by simp
  qed
qed

lemma track_builder_shape:
  assumes "build_genius_artist_track u t = Inr r" "t \<noteq> PDict []"
  shows "\<exists>d fs pa artists names.
           t = PDict d
         \<and> build_fields u (PDict d) genius_track_fields = Inr fs
         \<and> safe_extract (PDict d) [PStr ''primary_artist'', PStr ''name''] u = Inr pa
         \<and> py_iter (case map_of d ''primary_artists'' of Some v \<Rightarrow> v | None \<Rightarrow> PList []) = Inr artists
         \<and> other_primary_artists u pa artists = Inr names
         \<and> r = PDict (fs @ [(''primary_artist'', pa), (''primary_artists'', PList names),
                  (''genius_featured_artists'',
                     case map_of d ''featured_artists'' of Some v \<Rightarrow> v | None \<Rightarrow> PList [])])"
proof -
  let ?body = "bind_res (safe_extract t [PStr ''primary_artist'', PStr ''name''] u)
             (\<lambda>primary_artist.
           bind_res (safe_get t (PStr ''primary_artists'') (PList []))
             (\<lambda>primary_artists.
           bind_res (build_fields u t genius_track_fields)
             (\<lambda>fields.
           bind_res (py_iter primary_artists)
             (\<lambda>artists.
           bind_res (other_primary_artists u primary_artist artists)
             (\<lambda>names.
           bind_res (safe_get t (PStr ''featured_artists'') (PList []))
             (\<lambda>featured.
               Inr (PDict (fields @
                      [(''primary_artist'', primary_artist),
                       (''primary_artists'', PList names),
                       (''genius_featured_artists'', featured)]))))))))"
  from assms have body: "?body = Inr r"
    by (simp add: build_genius_artist_track_def py_eq_empty_dict split: sum.splits)
  then obtain pas where pas: "safe_get t (PStr ''primary_artists'') (PList []) = Inr pas"
    by (auto simp: bind_res_Inr_iff)
  then obtain d where d: "t = PDict d" by (blast dest: safe_get_Inr_is_dict)
  from body show ?thesis
    unfolding d by (auto simp: bind_res_Inr_iff safe_get_dict_str)
qed

lemma map_res_Inr:
  "map_res f xs = Inr ys \<Longrightarrow> length ys = length xs \<and> (\<forall>i < length xs. f (xs ! i) = Inr (ys ! i))"
proof (induction xs arbitrary: ys)
  case Nil
  then show ?case by simp
next
  case (Cons x xs)
  from Cons.prems obtain y ys' where y: "f x = Inr y" "map_res f xs = Inr ys'" "ys = y # ys'"
    by (auto simp: bind_res_Inr_iff)
  from Cons.IH [OF y(2)] y(1,3) show ?case
    by (auto simp: nth_Cons split: nat.splits)
qed

lemma genius_track_keys:
  "''primary_artist'' \<notin> set (map fst genius_track_fields)"
  "''primary_artists'' \<notin> set (map fst genius_track_fields)"
  "''genius_featured_artists'' \<notin> set (map fst genius_track_fields)"
  "distinct (map fst genius_track_fields)"
  by (simp_all add: genius_track_fields_def)

lemma genius_artist_keys:
  "''genius_tracks'' \<notin> set (map fst genius_artist_fields)"
  "distinct (map fst genius_artist_fields)"
  by (simp_all add: genius_artist_fields_def)

lemma build_fields_keys:
  "build_fields u (PDict d) spec = Inr fs \<Longrightarrow> map fst fs = map fst spec"
  using build_fields_dict [of u d spec] by auto

text \<open>
  C9. Whenever \<open>build_genius_artist_track\<close> builds a record, its \<open>primary_artist\<close> field is
  what \<open>safe_extract\<close> gives for the path \<open>['primary_artist', 'name']\<close> (the name found
  there by plain lookup when it is truthy and the sentinel is no dictionary), and its
  \<open>primary_artists\<close> field is the list of the names of all listed primary artists, in
  order, without those equal to that primary-artist name and with every other duplicate
  kept. The witness is the response of the specification's scenario.
\<close>

theorem genius_track_primary_artist_fields:
  assumes "build_genius_artist_track u t = Inr (PDict r)"
  shows "\<exists>d pa artists.
            t = PDict d
          \<and> safe_extract (PDict d) [PStr ''primary_artist'', PStr ''name''] u = Inr pa
          \<and> (\<forall>v. \<not> is_dict u \<and> resolve (PDict d) [PStr ''primary_artist'', PStr ''name''] = Some v
                   \<and> truthy v \<longrightarrow> pa = v)
          \<and> py_iter (case map_of d ''primary_artists'' of Some v \<Rightarrow> v | None \<Rightarrow> PList []) = Inr artists
          \<and> map_of r ''primary_artist'' = Some pa
          \<and> map_of r ''primary_artists'' =
              Some (PList (filter (\<lambda>n. \<not> py_eq n pa) (map (listed_name u) artists)))"
proof -
  have ne: "t \<noteq> PDict []"
    using assms by (auto simp: build_genius_artist_track_def)
  from track_builder_shape [OF assms ne]
  obtain d fs pa artists names where s:
    "t = PDict d"
    "build_fields u (PDict d) genius_track_fields = Inr fs"
    "safe_extract (PDict d) [PStr ''primary_artist'', PStr ''name''] u = Inr pa"
    "py_iter (case map_of d ''primary_artists'' of Some v \<Rightarrow> v | None \<Rightarrow> PList []) = Inr artists"
    "other_primary_artists u pa artists = Inr names"
    "PDict r = PDict (fs @ [(''primary_artist'', pa), (''primary_artists'', PList names),
                  (''genius_featured_artists'',
                     case map_of d ''featured_artists'' of Some v \<Rightarrow> v | None \<Rightarrow> PList [])])"
    by blast
  have keys: "map fst fs = map fst genius_track_fields"
    by (rule build_fields_keys [OF s(2)])
  from s(6) have r: "r = fs @ [(''primary_artist'', pa), (''primary_artists'', PList names),
                  (''genius_featured_artists'',
                     case map_of d ''featured_artists'' of Some v \<Rightarrow> v | None \<Rightarrow> PList [])]"
    by simp
  have n1: "''primary_artist'' \<notin> set (map fst fs)" and n2: "''primary_artists'' \<notin> set (map fst fs)"
    unfolding keys by (rule genius_track_keys)+
  have pa: "map_of r ''primary_artist'' = Some pa"
    unfolding r map_of_append_notin [OF n1] by simp
  have pas: "map_of r ''primary_artists'' = Some (PList names)"
    unfolding r map_of_append_notin [OF n2] by simp
  have names: "names = filter (\<lambda>n. \<not> py_eq n pa) (map (listed_name u) artists)"
    by (rule other_primary_artists_Inr [OF s(5)])
  have res: "pa = v"
    if "\<not> is_dict u" "resolve (PDict d) [PStr ''primary_artist'', PStr ''name''] = Some v" "truthy v" for v
    using extract_value_resolve_truthy [OF that(2,3,1)] s(3) by (simp add: safe_extract_def)
  from s(1,3,4) pa pas names res show ?thesis by blast
qed

theorem genius_track_primary_artist_fields_witness:
  "\<exists>r. build_genius_artist_track (PStr ''UNKNOWN'')
          (PDict [(''id'', PInt 10), (''title'', PStr ''A''),
                  (''primary_artist'', PDict [(''name'', PStr ''Test'')]),
                  (''primary_artists'', PList [PDict [(''name'', PStr ''Test'')], PDict [(''name'', PStr ''Feat'')]])])
        = Inr (PDict r)
      \<and> map_of r ''primary_artist'' = Some (PStr ''Test'')
      \<and> map_of r ''primary_artists'' = Some (PList [PStr ''Feat''])"
proof -
  let ?d = "[(''id'', PInt 10), (''title'', PStr ''A''),
             (''primary_artist'', PDict [(''name'', PStr ''Test'')]),
             (''primary_artists'', PList [PDict [(''name'', PStr ''Test'')], PDict [(''name'', PStr ''Feat'')]])]"
  have "\<exists>r. build_genius_artist_track (PStr ''UNKNOWN'') (PDict ?d) = Inr (PDict r)"
    by (simp add: build_genius_artist_track_def genius_track_fields_def safe_get_def
          safe_extract_def extract_value_def)
  then obtain r where r: "build_genius_artist_track (PStr ''UNKNOWN'') (PDict ?d) = Inr (PDict r)"
    by blast
  from genius_track_primary_artist_fields [OF r]
  obtain d pa artists where w:
    "PDict ?d = PDict d"
    "safe_extract (PDict d) [PStr ''primary_artist'', PStr ''name''] (PStr ''UNKNOWN'') = Inr pa"
    "py_iter (case map_of d ''primary_artists'' of Some v \<Rightarrow> v | None \<Rightarrow> PList []) = Inr artists"
    "map_of r ''primary_artist'' = Some pa"
    "map_of r ''primary_artists'' =
              Some (PList (filter (\<lambda>n. \<not> py_eq n pa) (map (listed_name (PStr ''UNKNOWN'')) artists)))"
    by blast
  from w(1) have d: "d = ?d" by simp
  from w(2) have pa: "pa = PStr ''Test''"
    unfolding d by (simp add: safe_extract_def extract_value_def safe_get_def)
  from w(3) have artists: "artists = [PDict [(''name'', PStr ''Test'')], PDict [(''name'', PStr ''Feat'')]]"
    unfolding d by simp
  from w(4,5) have "map_of r ''primary_artist'' = Some (PStr ''Test'')"
    "map_of r ''primary_artists'' = Some (PList [PStr ''Feat''])"
    unfolding pa artists by simp_all
  with r show ?thesis by blast
qed

subsection \<open>The Genius orchestrator\<close>

lemma artist_builder_shape:
  assumes "build_genius_artist_data u (PDict d) = Inr r"
  shows "\<exists>fs songs built.
           build_fields u (PDict d) genius_artist_fields = Inr fs
         \<and> py_iter (case map_of d ''songs'' of Some v \<Rightarrow> v | None \<Rightarrow> PDict []) = Inr songs
         \<and> map_res (build_genius_artist_track u) songs = Inr built
         \<and> r = PDict (fs @ [(''genius_tracks'', PList built)])"
  using assms
  by (auto simp: build_genius_artist_data_def bind_res_Inr_iff safe_get_dict_str split: sum.splits)

lemma genius_artist_search_Inr:
  assumes "genius_artist_search u search_artist name n = Inr a"
  shows "search_artist name n = Inr (Some a)"
proof -
  from assms obtain x where x: "search_artist name n = Inr x"
    by (cases "search_artist name n") (auto simp: genius_artist_search_def)
  with assms show ?thesis
    by (cases x) (auto simp: genius_artist_search_def bind_res_Inr_iff split: sum.splits if_splits)
qed

lemma fetch_genius_Inr:
  assumes "fetch_genius_artist_data u search_artist name n = Inr r"
  shows "\<exists>a gad ad tr.
           genius_artist_search u search_artist name n = Inr a
         \<and> build_genius_artist_data u a = Inr gad
         \<and> without_tracks gad = Inr ad
         \<and> safe_get gad (PStr ''genius_tracks'') (PDict []) = Inr tr
         \<and> r = PDict [(''artist_data'', ad), (''artist_tracks'', tr)]"
  using assms
  by (auto simp: fetch_genius_artist_data_def bind_res_Inr_iff split: sum.splits if_splits)

text \<open>
  C10. For the empty mapping \<open>build_genius_artist_track\<close> returns \<open>None\<close> and no record;
  and whenever the songs list of the search result holds an empty mapping at some position
  and \<open>fetch_genius_artist_data\<close> returns, the \<open>artist_tracks\<close> list it hands to the caller
  has \<open>None\<close> at that position.
\<close>

theorem genius_empty_track_gives_none:
  "build_genius_artist_track u (PDict []) = Inr PNone
   \<and> (\<forall>d songs r i.
         search_artist name n = Inr (Some (PDict d))
       \<and> map_of d ''songs'' = Some (PList songs)
       \<and> fetch_genius_artist_data u search_artist name n = Inr r
       \<and> i < length songs \<and> songs ! i = PDict []
       \<longrightarrow> (\<exists>ts. subscript_key r ''artist_tracks'' = Inr (PList ts)
                  \<and> length ts = length songs \<and> ts ! i = PNone))"
proof -
  have empty: "build_genius_artist_track u (PDict []) = Inr PNone"
    by (simp add: build_genius_artist_track_def)
  have "\<exists>ts. subscript_key r ''artist_tracks'' = Inr (PList ts)
                  \<and> length ts = length songs \<and> ts ! i = PNone"
    if h: "search_artist name n = Inr (Some (PDict d))" "map_of d ''songs'' = Some (PList songs)"
      "fetch_genius_artist_data u search_artist name n = Inr r" "i < length songs" "songs ! i = PDict []"
    for d songs r i
  proof -
    from fetch_genius_Inr [OF h(3)] obtain a gad ad tr where f:
      "genius_artist_search u search_artist name n = Inr a"
      "build_genius_artist_data u a = Inr gad"
      "safe_get gad (PStr ''genius_tracks'') (PDict []) = Inr tr"
      "r = PDict [(''artist_data'', ad), (''artist_tracks'', tr)]"
      by blast
    from genius_artist_search_Inr [OF f(1)] h(1) have a: "a = PDict d" by simp
    from artist_builder_shape [OF f(2) [unfolded a]] h(2)
    obtain fs built where b:
      "build_fields u (PDict d) genius_artist_fields = Inr fs"
      "map_res (build_genius_artist_track u) songs = Inr built"
      "gad = PDict (fs @ [(''genius_tracks'', PList built)])"
      by auto
    have nk: "''genius_tracks'' \<notin> set (map fst fs)"
      unfolding build_fields_keys [OF b(1)] by (rule genius_artist_keys(1))
    have "map_of (fs @ [(''genius_tracks'', PList built)]) ''genius_tracks'' = Some (PList built)"
      unfolding map_of_append_notin [OF nk] by simp
    with f(3) b(3) have tr: "tr = PList built" by (simp add: safe_get_dict_str)
    from map_res_Inr [OF b(2)] h(4,5) empty
    have "length built = length songs" "built ! i = PNone" by auto
    with f(4) tr show ?thesis by simp
  qed
  with empty show ?thesis by blast
qed

theorem genius_empty_track_gives_none_witness:
  "\<exists>r ts. fetch_genius_artist_data (PStr ''UNKNOWN'')
            (\<lambda>artist_name n_tracks.
               Inr (Some (PDict [(''name'', PStr ''Test''), (''songs'', PList [PDict [], PDict [(''id'', PInt 10)]])])))
            ''Test'' 10 = Inr r
        \<and> subscript_key r ''artist_tracks'' = Inr (PList ts) \<and> length ts = 2 \<and> ts ! 0 = PNone"
proof -
  let ?d = "[(''name'', PStr ''Test''), (''songs'', PList [PDict [], PDict [(''id'', PInt 10)]])]"
  let ?c = "\<lambda>(artist_name :: string) (n_tracks :: int). (Inr (Some (PDict ?d)) :: pyexc + pyval option)"
  have "\<exists>r. fetch_genius_artist_data (PStr ''UNKNOWN'') ?c ''Test'' 10 = Inr r"
    by (simp add: fetch_genius_artist_data_def genius_artist_search_def build_genius_artist_data_def
          build_genius_artist_track_def genius_artist_fields_def genius_track_fields_def
          safe_get_def safe_extract_def extract_value_def)
  then obtain r where r: "fetch_genius_artist_data (PStr ''UNKNOWN'') ?c ''Test'' 10 = Inr r" by blast
  have h1: "?c ''Test'' 10 = Inr (Some (PDict ?d))" by simp
  have h2: "map_of ?d ''songs'' = Some (PList [PDict [], PDict [(''id'', PInt 10)]])" by simp
  have h4: "0 < length [PDict [], PDict [(''id'', PInt 10)]]" by simp
  have h5: "[PDict [], PDict [(''id'', PInt 10)]] ! 0 = PDict []" by simp
  from genius_empty_track_gives_none [of "PStr ''UNKNOWN''" ?c "''Test''" 10] h1 h2 r h4 h5
  obtain ts where "subscript_key r ''artist_tracks'' = Inr (PList ts)"
    "length ts = length [PDict [], PDict [(''id'', PInt 10)]]" "ts ! 0 = PNone"
    by blast
  with r show ?thesis by auto
qed

subsection \<open>The error surface of the orchestrators\<close>

lemma genius_artist_search_Inl:
  assumes "genius_artist_search u search_artist name n = Inl e"
  shows "\<exists>m. e = Exc GeniusAPIError (''Error fetching artist '' @ sq @ name @ sq @ '' from Genius API: '' @ m)"
  using assms by (auto simp: genius_artist_search_def split: sum.splits)

lemma build_genius_artist_data_Inl:
  assumes "build_genius_artist_data u a = Inl e"
  shows "\<exists>m. e = Exc TrackDataError (''Error occurred while building artist data: '' @ m)"
  using assms by (auto simp: build_genius_artist_data_def split: sum.splits)

lemma fetch_genius_search_raises:
  assumes "genius_artist_search u search_artist name n = Inl e"
  shows "fetch_genius_artist_data u search_artist name n = Inl e"
proof -
  from genius_artist_search_Inl [OF assms] have "is_GeniusAPIError e" by auto
  with assms show ?thesis by (simp add: fetch_genius_artist_data_def)
qed

lemma fetch_genius_build_raises:
  assumes "genius_artist_search u search_artist name n = Inr a" "build_genius_artist_data u a = Inl e"
  shows "fetch_genius_artist_data u search_artist name n = Inl e"
proof -
  from build_genius_artist_data_Inl [OF assms(2)] have "is_GeniusAPIError e" by auto
  with assms show ?thesis by (simp add: fetch_genius_artist_data_def)
qed

lemma fetch_genius_Inl_class:
  assumes "fetch_genius_artist_data u search_artist name n = Inl e"
  shows "is_GeniusAPIError e"
  using assms
  by (auto simp: fetch_genius_artist_data_def split: sum.splits if_splits)

text \<open>
  C6, as stated, fails for Spotify: \<open>fetch_spotify_artist_data\<close> has no handler, so an
  unexpected exception of the client (here the one its search raises) reaches the caller
  as it is, re-raised as no domain error type.
\<close>

theorem spotify_fetch_propagates_unexpected_error:
  "fetch_spotify_artist_data (PStr ''UNKNOWN'')
     \<lparr> sp_search = (\<lambda>artist_name. Inl (Exc (OtherError ''SpotifyException'') ''http status: 429'')),
       sp_artist_related_artists = (\<lambda>artist_id. Inr (PDict [(''artists'', PList [])])),
       sp_artist_albums = (\<lambda>artist_id album_type. Inr PNone),
       sp_album_tracks = (\<lambda>album_id. Inr PNone),
       sp_next = (\<lambda>results. Inr PNone),
       sp_audio_features = (\<lambda>track_id. Inr (PList [PNone])) \<rparr>
     ''Test''
   = Some (Inl (Exc (OtherError ''SpotifyException'') ''http status: 429''))"
  by (simp add: fetch_spotify_artist_data_def spotify_artist_search_def)

text \<open>
  C6, amended. Every exception that leaves \<open>fetch_genius_artist_data\<close> is an instance of
  \<open>GeniusAPIError\<close> (the class or one of its subclasses); an unexpected exception of the
  client's search is re-raised as \<open>GeniusAPIError\<close> with the original message at the end of
  its text; an error raised by the search step or by the build step (whose errors are
  \<open>TrackDataError\<close>s) passes the orchestrator unchanged. \<open>fetch_spotify_artist_data\<close>
  re-raises nothing: an exception of its search step or of its artist builder reaches the
  caller unchanged.
\<close>

theorem orchestrator_error_surface:
  "(\<forall>e. fetch_genius_artist_data u search_artist name n = Inl e \<longrightarrow> is_GeniusAPIError e)
   \<and> (\<forall>e0. search_artist name n = Inl e0 \<longrightarrow>
         fetch_genius_artist_data u search_artist name n =
           Inl (Exc GeniusAPIError
                 (''Error fetching artist '' @ sq @ name @ sq @ '' from Genius API: '' @ str_exc e0)))
   \<and> (\<forall>e. genius_artist_search u search_artist name n = Inl e \<longrightarrow>
         fetch_genius_artist_data u search_artist name n = Inl e)
   \<and> (\<forall>a e. genius_artist_search u search_artist name n = Inr a
           \<and> build_genius_artist_data u a = Inl e \<longrightarrow>
         fetch_genius_artist_data u search_artist name n = Inl e
         \<and> (\<exists>m. e = Exc TrackDataError (''Error occurred while building artist data: '' @ m)))
   \<and> (\<forall>e. spotify_artist_search c sname = Inl e \<longrightarrow>
         fetch_spotify_artist_data u c sname = Some (Inl e))
   \<and> (\<forall>a e. spotify_artist_search c sname = Inr a \<and> build_spotify_artist_data u c a = Inl e \<longrightarrow>
         fetch_spotify_artist_data u c sname = Some (Inl e))"
proof -
  have 1: "\<forall>e. fetch_genius_artist_data u search_artist name n = Inl e \<longrightarrow> is_GeniusAPIError e"
    using fetch_genius_Inl_class by blast
  have 2: "fetch_genius_artist_data u search_artist name n =
           Inl (Exc GeniusAPIError
                 (''Error fetching artist '' @ sq @ name @ sq @ '' from Genius API: '' @ str_exc e0))"
    if "search_artist name n = Inl e0" for e0
  proof -
    from that have "genius_artist_search u search_artist name n =
           Inl (Exc GeniusAPIError
                 (''Error fetching artist '' @ sq @ name @ sq @ '' from Genius API: '' @ str_exc e0))"
      by (simp add: genius_artist_search_def)
    then show ?thesis by (rule fetch_genius_search_raises)
  qed
  have 3: "\<forall>e. genius_artist_search u search_artist name n = Inl e \<longrightarrow>
         fetch_genius_artist_data u search_artist name n = Inl e"
    using fetch_genius_search_raises by blast
  have 4: "\<forall>a e. genius_artist_search u search_artist name n = Inr a
           \<and> build_genius_artist_data u a = Inl e \<longrightarrow>
         fetch_genius_artist_data u search_artist name n = Inl e
         \<and> (\<exists>m. e = Exc TrackDataError (''Error occurred while building artist data: '' @ m))"
    using fetch_genius_build_raises build_genius_artist_data_Inl by blast
  have 5: "\<forall>e. spotify_artist_search c sname = Inl e \<longrightarrow>
         fetch_spotify_artist_data u c sname = Some (Inl e)"
    by (simp add: fetch_spotify_artist_data_def)
  have 6: "\<forall>a e. spotify_artist_search c sname = Inr a \<and> build_spotify_artist_data u c a = Inl e \<longrightarrow>
         fetch_spotify_artist_data u c sname = Some (Inl e)"
    by (simp add: fetch_spotify_artist_data_def)
  from 1 2 3 4 5 6 show ?thesis by blast
qed

theorem orchestrator_error_surface_witness:
  "fetch_genius_artist_data (PStr ''UNKNOWN'')
      (\<lambda>artist_name n_tracks. Inl (Exc (OtherError ''Timeout'') ''timed out'')) ''Test'' 10
     = Inl (Exc GeniusAPIError
             (''Error fetching artist '' @ sq @ ''Test'' @ sq @ '' from Genius API: timed out''))
   \<and> fetch_genius_artist_data (PStr ''UNKNOWN'')
      (\<lambda>artist_name n_tracks. Inr (Some (PDict [(''name'', PStr ''Test''), (''songs'', PInt 5)])))
      ''Test'' 10
     = Inl (Exc TrackDataError
             (''Error occurred while building artist data: '' @ sq @ ''int'' @ sq @ '' object is not iterable''))
   \<and> fetch_spotify_artist_data (PStr ''UNKNOWN'')
       \<lparr> sp_search = (\<lambda>artist_name.
            Inr (PDict [(''artists'', PDict [(''items'',
                   PList [PDict [(''id'', PStr ''a1''), (''images'', PList [PDict [(''url'', PStr ''u'')]])]])])])),
         sp_artist_related_artists = (\<lambda>artist_id. Inl (Exc (OtherError ''ReadTimeout'') ''timed out'')),
         sp_artist_albums = (\<lambda>artist_id album_type. Inr PNone),
         sp_album_tracks = (\<lambda>album_id. Inr PNone),
         sp_next = (\<lambda>results. Inr PNone),
         sp_audio_features = (\<lambda>track_id. Inr PNone) \<rparr>
       ''Test''
     = Some (Inl (Exc (OtherError ''ReadTimeout'') ''timed out''))"
proof -
  let ?u = "PStr ''UNKNOWN''"
  let ?g1 = "\<lambda>(artist_name :: string) (n_tracks :: int).
              (Inl (Exc (OtherError ''Timeout'') ''timed out'') :: pyexc + pyval option)"
  let ?d = "PDict [(''name'', PStr ''Test''), (''songs'', PInt 5)]"
  let ?g2 = "\<lambda>(artist_name :: string) (n_tracks :: int). (Inr (Some ?d) :: pyexc + pyval option)"
  let ?a = "PDict [(''id'', PStr ''a1''), (''images'', PList [PDict [(''url'', PStr ''u'')]])]"
  let ?c = "\<lparr> sp_search = (\<lambda>artist_name.
            Inr (PDict [(''artists'', PDict [(''items'', PList [?a])])])),
         sp_artist_related_artists = (\<lambda>artist_id. Inl (Exc (OtherError ''ReadTimeout'') ''timed out'')),
         sp_artist_albums = (\<lambda>artist_id album_type. Inr PNone),
         sp_album_tracks = (\<lambda>album_id. Inr PNone),
         sp_next = (\<lambda>results. Inr PNone),
         sp_audio_features = (\<lambda>track_id. Inr PNone) \<rparr>"
  let ?e2 = "Exc TrackDataError
             (''Error occurred while building artist data: '' @ sq @ ''int'' @ sq @ '' object is not iterable'')"
  let ?e3 = "Exc (OtherError ''ReadTimeout'') ''timed out''"
  note t1 = orchestrator_error_surface [of ?u ?g1 "''Test''" 10 ?c "''Test''"]
  note t2 = orchestrator_error_surface [of ?u ?g2 "''Test''" 10 ?c "''Test''"]
  have h1: "?g1 ''Test'' 10 = Inl (Exc (OtherError ''Timeout'') ''timed out'')" by simp
  have p1: "fetch_genius_artist_data ?u ?g1 ''Test'' 10 =
      Inl (Exc GeniusAPIError
             (''Error fetching artist '' @ sq @ ''Test'' @ sq @ '' from Genius API: '' @
              str_exc (Exc (OtherError ''Timeout'') ''timed out'')))"
    by (rule conjunct1 [OF conjunct2 [OF t1], rule_format, OF h1])
  have h2: "genius_artist_search ?u ?g2 ''Test'' 10 = Inr ?d \<and> build_genius_artist_data ?u ?d = Inl ?e2"
    by (simp add: genius_artist_search_def build_genius_artist_data_def genius_artist_fields_def
          safe_get_def safe_extract_def extract_value_def)
  have p2: "fetch_genius_artist_data ?u ?g2 ''Test'' 10 = Inl ?e2"
    by (rule conjunct1 [OF conjunct1 [OF conjunct2 [OF conjunct2 [OF conjunct2 [OF t2]]], rule_format, OF h2]])
  have h3: "spotify_artist_search ?c ''Test'' = Inr ?a \<and> build_spotify_artist_data ?u ?c ?a = Inl ?e3"
    by (simp add: spotify_artist_search_def build_spotify_artist_data_def spotify_artist_fields_1_def
          spotify_artist_fields_2_def safe_get_def safe_extract_def extract_value_def)
  have p3: "fetch_spotify_artist_data ?u ?c ''Test'' = Some (Inl ?e3)"
    by (rule conjunct2 [OF conjunct2 [OF conjunct2 [OF conjunct2 [OF conjunct2 [OF t1]]]], rule_format, OF h3])
  from p1 have p1': "fetch_genius_artist_data ?u ?g1 ''Test'' 10 =
      Inl (Exc GeniusAPIError
             (''Error fetching artist '' @ sq @ ''Test'' @ sq @ '' from Genius API: timed out''))"
    by simp
  from p1' p2 p3 show ?thesis by (intro conjI)
qed

subsection \<open>Missing fields in the record builders\<close>

lemma spotify_track_keys:
  "''spotify_artist_id'' \<notin> set (map fst spotify_track_fields)"
  "''track_audio_features_spotify'' \<notin> set (map fst spotify_track_fields)"
  "distinct (map fst spotify_track_fields)"
  by (simp_all add: spotify_track_fields_def)

lemma track_fields_default:
  "(out, a) \<in> set genius_track_fields \<Longrightarrow> field_default u a = u"
  by (auto simp: genius_track_fields_def)

lemma spotify_fields_default:
  "(out, a) \<in> set spotify_track_fields \<Longrightarrow> field_default u a = u"
  by (auto simp: spotify_track_fields_def)

lemma safe_extract_dict_returns:
  "\<exists>v. safe_extract (PDict d) (map PStr p) u = Inr v"
proof -
  have "\<forall>k \<in> set (map PStr p). hashable k" by simp
  from extract_loop_hashable_result [OF this] show ?thesis by (simp add: safe_extract_def)
qed

lemma safe_extract_absent:
  "map_of d k = None \<Longrightarrow> safe_extract (PDict d) (PStr k # ks) u = Inr u"
  by (simp add: safe_extract_def extract_value_def safe_get_dict_str py_eq_refl)

lemma track_builder_total:
  assumes "map_of d ''primary_artists'' = None"
  shows "\<exists>r. build_genius_artist_track u (PDict d) = Inr r"
proof -
  from safe_extract_dict_returns [of d "[''primary_artist'', ''name'']" u]
  obtain pa where pa: "safe_extract (PDict d) [PStr ''primary_artist'', PStr ''name''] u = Inr pa"
    by auto
  from build_fields_dict [of u d genius_track_fields]
  obtain fs where fs: "build_fields u (PDict d) genius_track_fields = Inr fs" by blast
  from assms pa fs show ?thesis
    by (simp add: build_genius_artist_track_def safe_get_dict_str)
qed

lemma artist_builder_total:
  assumes "map_of d ''songs'' = None"
  shows "\<exists>r. build_genius_artist_data u (PDict d) = Inr r"
proof -
  from build_fields_dict [of u d genius_artist_fields]
  obtain fs where fs: "build_fields u (PDict d) genius_artist_fields = Inr fs" by blast
  from assms fs show ?thesis
    by (simp add: build_genius_artist_data_def safe_get_dict_str)
qed

lemma spotify_track_entry_total:
  assumes "map_of d ''id'' = None"
  shows "\<exists>fs. build_fields u (PDict d) spotify_track_fields = Inr fs
          \<and> spotify_track_entry u c aid (PDict d) =
             Inr (PDict ((''spotify_artist_id'', aid) # fs @ [(''track_audio_features_spotify'', PDict [])]))"
proof -
  from build_fields_dict [of u d spotify_track_fields]
  obtain fs where fs: "build_fields u (PDict d) spotify_track_fields = Inr fs" by blast
  from assms fs show ?thesis
    by (simp add: spotify_track_entry_def safe_get_dict_str py_eq_refl)
qed

lemma spotify_track_entry_shape:
  assumes "spotify_track_entry u c aid (PDict d) = Inr r"
  shows "\<exists>fs features. build_fields u (PDict d) spotify_track_fields = Inr fs
          \<and> r = PDict ((''spotify_artist_id'', aid) # fs @ [(''track_audio_features_spotify'', features)])"
  using assms by (auto simp: spotify_track_entry_def bind_res_Inr_iff)

text \<open>
  The artist builder of the Spotify module indexes the result of \<open>safe_get\<close>: for a search
  result without \<open>images\<close> and the sentinel \<open>'UNKNOWN'\<close>, \<open>'UNKNOWN'[0]\<close> is the string
  \<open>'U'\<close>, on which the second \<open>safe_get\<close> raises.
\<close>

lemma build_spotify_artist_data_missing_images:
  "build_spotify_artist_data (PStr ''UNKNOWN'') c (PDict [(''id'', PStr ''a1''), (''name'', PStr ''Test'')])
   = Inl (Exc AttributeError (sq @ ''str'' @ sq @ '' object has no attribute '' @ sq @ ''get'' @ sq))"
  by (simp add: build_spotify_artist_data_def spotify_artist_fields_1_def safe_get_def)

text \<open>
  C7, as stated, fails: for the empty mapping the Genius track builder returns \<open>None\<close> and
  no record, and for a track without \<open>primary_artists\<close> and \<open>featured_artists\<close> the two
  fields of the record are the empty list, not the sentinel.
\<close>

theorem genius_track_builder_defaults:
  "build_genius_artist_track (PStr ''UNKNOWN'') (PDict []) = Inr PNone
   \<and> build_genius_artist_track (PStr ''UNKNOWN'') (PDict [(''id'', PInt 10)])
     = Inr (PDict
         [(''genius_track_id'', PInt 10),
          (''genius_title'', PStr ''UNKNOWN''),
          (''genius_release_date'', PStr ''UNKNOWN''),
          (''genius_album'', PStr ''UNKNOWN''),
          (''genius_track_api_path'', PStr ''UNKNOWN''),
          (''genius_pageviews'', PStr ''UNKNOWN''),
          (''genius_track_url'', PStr ''UNKNOWN''),
          (''genius_track_image_url'', PStr ''UNKNOWN''),
          (''genius_track_language'', PStr ''UNKNOWN''),
          (''genius_track_description'', PStr ''UNKNOWN''),
          (''genius_lyrics'', PStr ''UNKNOWN''),
          (''genius_lyrics_is_complete'', PStr ''UNKNOWN''),
          (''primary_artist'', PStr ''UNKNOWN''),
          (''primary_artists'', PList []),
          (''genius_featured_artists'', PList [])])"
  by (simp add: build_genius_artist_track_def genius_track_fields_def safe_get_def
        safe_extract_def extract_value_def)

text \<open>
  C7, amended. The Genius artist builder, the Genius track builder and the entry that the
  Spotify track builder makes for one track read every field of the response mapping
  through the safe accessor. Each of them raises only when a particular field is present
  (\<open>songs\<close>, \<open>primary_artists\<close>, \<open>id\<close>), never because a field is missing. In the record it
  returns, a field whose key is absent holds the sentinel, or the explicit default where
  the builder gives one: the empty list for \<open>alternate_names\<close>, \<open>primary_artists\<close>,
  \<open>featured_artists\<close> and the tracks of an absent \<open>songs\<close>, the empty mapping for the audio
  features of a track without \<open>id\<close>. (The Genius track builder returns a record for a
  non-empty mapping only.)
\<close>

theorem builders_missing_fields:
  "(\<forall>e. build_genius_artist_track u (PDict d) = Inl e \<longrightarrow> map_of d ''primary_artists'' \<noteq> None)
   \<and> (\<forall>r. d \<noteq> [] \<and> build_genius_artist_track u (PDict d) = Inr r \<longrightarrow>
         (\<exists>fs. r = PDict fs
            \<and> (\<forall>out a k. (out, a) \<in> set genius_track_fields \<and> field_key a = Some k
                   \<and> map_of d k = None \<longrightarrow> map_of fs out = Some u)
            \<and> (map_of d ''primary_artist'' = None \<longrightarrow> map_of fs ''primary_artist'' = Some u)
            \<and> (map_of d ''primary_artists'' = None \<longrightarrow> map_of fs ''primary_artists'' = Some (PList []))
            \<and> (map_of d ''featured_artists'' = None \<longrightarrow>
                   map_of fs ''genius_featured_artists'' = Some (PList []))))
   \<and> (\<forall>e. build_genius_artist_data u (PDict d) = Inl e \<longrightarrow> map_of d ''songs'' \<noteq> None)
   \<and> (\<forall>r. build_genius_artist_data u (PDict d) = Inr r \<longrightarrow>
         (\<exists>fs. r = PDict fs
            \<and> (\<forall>out a k. (out, a) \<in> set genius_artist_fields \<and> field_key a = Some k
                   \<and> map_of d k = None \<longrightarrow> map_of fs out = Some (field_default u a))
            \<and> (map_of d ''songs'' = None \<longrightarrow> map_of fs ''genius_tracks'' = Some (PList []))))
   \<and> (\<forall>e. spotify_track_entry u c aid (PDict d) = Inl e \<longrightarrow> map_of d ''id'' \<noteq> None)
   \<and> (\<forall>r. spotify_track_entry u c aid (PDict d) = Inr r \<longrightarrow>
         (\<exists>fs. r = PDict fs
            \<and> (\<forall>out a k. (out, a) \<in> set spotify_track_fields \<and> field_key a = Some k
                   \<and> map_of d k = None \<longrightarrow> map_of fs out = Some u)
            \<and> (map_of d ''id'' = None \<longrightarrow> map_of fs ''track_audio_features_spotify'' = Some (PDict []))))"
proof -
  have t1: "\<forall>e. build_genius_artist_track u (PDict d) = Inl e \<longrightarrow> map_of d ''primary_artists'' \<noteq> None"
  proof (intro allI impI notI)
    fix e assume r: "build_genius_artist_track u (PDict d) = Inl e" and n: "map_of d ''primary_artists'' = None"
    from track_builder_total [OF n, of u] r show False by auto
  qed
  have t2: "\<exists>fs. r = PDict fs
            \<and> (\<forall>out a k. (out, a) \<in> set genius_track_fields \<and> field_key a = Some k
                   \<and> map_of d k = None \<longrightarrow> map_of fs out = Some u)
            \<and> (map_of d ''primary_artist'' = None \<longrightarrow> map_of fs ''primary_artist'' = Some u)
            \<and> (map_of d ''primary_artists'' = None \<longrightarrow> map_of fs ''primary_artists'' = Some (PList []))
            \<and> (map_of d ''featured_artists'' = None \<longrightarrow>
                   map_of fs ''genius_featured_artists'' = Some (PList []))"
    if h: "d \<noteq> []" "build_genius_artist_track u (PDict d) = Inr r" for r
  proof -
    from h(1) have ne: "PDict d \<noteq> PDict []" by simp
    from track_builder_shape [OF h(2) ne]
    obtain fs pa artists names where s:
      "build_fields u (PDict d) genius_track_fields = Inr fs"
      "safe_extract (PDict d) [PStr ''primary_artist'', PStr ''name''] u = Inr pa"
      "py_iter (case map_of d ''primary_artists'' of Some v \<Rightarrow> v | None \<Rightarrow> PList []) = Inr artists"
      "other_primary_artists u pa artists = Inr names"
      "r = PDict (fs @ [(''primary_artist'', pa), (''primary_artists'', PList names),
                  (''genius_featured_artists'',
                     case map_of d ''featured_artists'' of Some v \<Rightarrow> v | None \<Rightarrow> PList [])])"
      by auto
    let ?rest = "[(''primary_artist'', pa), (''primary_artists'', PList names),
                  (''genius_featured_artists'',
                     case map_of d ''featured_artists'' of Some v \<Rightarrow> v | None \<Rightarrow> PList [])]"
    have keys: "map fst fs = map fst genius_track_fields"
      by (rule build_fields_keys [OF s(1)])
    have n1: "''primary_artist'' \<notin> set (map fst fs)" and n2: "''primary_artists'' \<notin> set (map fst fs)"
      and n3: "''genius_featured_artists'' \<notin> set (map fst fs)"
      unfolding keys by (rule genius_track_keys)+
    have a: "map_of (fs @ ?rest) out = Some u"
      if "(out, a) \<in> set genius_track_fields" "field_key a = Some k" "map_of d k = None" for out a k
    proof -
      from that(1) have "out \<in> set (map fst fs)" unfolding keys by force
      then have "map_of (fs @ ?rest) out = map_of fs out" by (rule map_of_append_in)
      also have "\<dots> = Some (field_default u a)"
        by (rule build_fields_lookup [OF s(1) genius_track_keys(4) that])
      finally show ?thesis using track_fields_default [OF that(1)] by simp
    qed
    have b: "map_of (fs @ ?rest) ''primary_artist'' = Some u" if "map_of d ''primary_artist'' = None"
    proof -
      from safe_extract_absent [OF that, of "[PStr ''name'']" u] s(2) have "pa = u" by simp
      then show ?thesis unfolding map_of_append_notin [OF n1] by simp
    qed
    have c: "map_of (fs @ ?rest) ''primary_artists'' = Some (PList [])" if "map_of d ''primary_artists'' = None"
    proof -
      from that s(3) have "artists = []" by simp
      with s(4) have "names = []" by simp
      then show ?thesis unfolding map_of_append_notin [OF n2] by simp
    qed
    have e: "map_of (fs @ ?rest) ''genius_featured_artists'' = Some (PList [])"
      if "map_of d ''featured_artists'' = None"
      unfolding map_of_append_notin [OF n3] using that by simp
    show ?thesis
    proof (intro exI conjI allI impI)
      show "r = PDict (fs @ ?rest)" by (rule s(5))
    next
      fix out a k
      assume "(out, a) \<in> set genius_track_fields \<and> field_key a = Some k \<and> map_of d k = None"
      then show "map_of (fs @ ?rest) out = Some u" using a by (elim conjE)
    next
      assume "map_of d ''primary_artist'' = None"
      then show "map_of (fs @ ?rest) ''primary_artist'' = Some u" by (rule b)
    next
      assume "map_of d ''primary_artists'' = None"
      then show "map_of (fs @ ?rest) ''primary_artists'' = Some (PList [])" by (rule c)
    next
      assume "map_of d ''featured_artists'' = None"
      then show "map_of (fs @ ?rest) ''genius_featured_artists'' = Some (PList [])" by (rule e)
    qed
  qed
  have a1: "\<forall>e. build_genius_artist_data u (PDict d) = Inl e \<longrightarrow> map_of d ''songs'' \<noteq> None"
  proof (intro allI impI notI)
    fix e assume r: "build_genius_artist_data u (PDict d) = Inl e" and n: "map_of d ''songs'' = None"
    from artist_builder_total [OF n, of u] r show False by auto
  qed
  have a2: "\<exists>fs. r = PDict fs
            \<and> (\<forall>out a k. (out, a) \<in> set genius_artist_fields \<and> field_key a = Some k
                   \<and> map_of d k = None \<longrightarrow> map_of fs out = Some (field_default u a))
            \<and> (map_of d ''songs'' = None \<longrightarrow> map_of fs ''genius_tracks'' = Some (PList []))"
    if h: "build_genius_artist_data u (PDict d) = Inr r" for r
  proof -
    from artist_builder_shape [OF h]
    obtain fs songs built where s:
      "build_fields u (PDict d) genius_artist_fields = Inr fs"
      "py_iter (case map_of d ''songs'' of Some v \<Rightarrow> v | None \<Rightarrow> PDict []) = Inr songs"
      "map_res (build_genius_artist_track u) songs = Inr built"
      "r = PDict (fs @ [(''genius_tracks'', PList built)])"
      by blast
    have keys: "map fst fs = map fst genius_artist_fields"
      by (rule build_fields_keys [OF s(1)])
    have n1: "''genius_tracks'' \<notin> set (map fst fs)"
      unfolding keys by (rule genius_artist_keys(1))
    have a: "map_of (fs @ [(''genius_tracks'', PList built)]) out = Some (field_default u a)"
      if "(out, a) \<in> set genius_artist_fields" "field_key a = Some k" "map_of d k = None" for out a k
    proof -
      from that(1) have "out \<in> set (map fst fs)" unfolding keys by force
      then have "map_of (fs @ [(''genius_tracks'', PList built)]) out = map_of fs out"
        by (rule map_of_append_in)
      also have "\<dots> = Some (field_default u a)"
        by (rule build_fields_lookup [OF s(1) genius_artist_keys(2) that])
      finally show ?thesis .
    qed
    have b: "map_of (fs @ [(''genius_tracks'', PList built)]) ''genius_tracks'' = Some (PList [])"
      if "map_of d ''songs'' = None"
    proof -
      from that s(2) have "songs = []" by simp
      with s(3) have "built = []" by simp
      then show ?thesis unfolding map_of_append_notin [OF n1] by simp
    qed
    show ?thesis
    proof (intro exI conjI allI impI)
      show "r = PDict (fs @ [(''genius_tracks'', PList built)])" by (rule s(4))
    next
      fix out a k
      assume "(out, a) \<in> set genius_artist_fields \<and> field_key a = Some k \<and> map_of d k = None"
      then show "map_of (fs @ [(''genius_tracks'', PList built)]) out = Some (field_default u a)"
        using a by (elim conjE)
    next
      assume "map_of d ''songs'' = None"
      then show "map_of (fs @ [(''genius_tracks'', PList built)]) ''genius_tracks'' = Some (PList [])"
        by (rule b)
    qed
  qed
  have s1: "\<forall>e. spotify_track_entry u c aid (PDict d) = Inl e \<longrightarrow> map_of d ''id'' \<noteq> None"
  proof (intro allI impI notI)
    fix e assume r: "spotify_track_entry u c aid (PDict d) = Inl e" and n: "map_of d ''id'' = None"
    from spotify_track_entry_total [OF n, of u c aid] r show False by auto
  qed
  have s2: "\<exists>fs. r = PDict fs
            \<and> (\<forall>out a k. (out, a) \<in> set spotify_track_fields \<and> field_key a = Some k
                   \<and> map_of d k = None \<longrightarrow> map_of fs out = Some u)
            \<and> (map_of d ''id'' = None \<longrightarrow> map_of fs ''track_audio_features_spotify'' = Some (PDict []))"
    if h: "spotify_track_entry u c aid (PDict d) = Inr r" for r
  proof -
    from spotify_track_entry_shape [OF h]
    obtain fs features where s:
      "build_fields u (PDict d) spotify_track_fields = Inr fs"
      "r = PDict ((''spotify_artist_id'', aid) # fs @ [(''track_audio_features_spotify'', features)])"
      by blast
    have keys: "map fst fs = map fst spotify_track_fields"
      by (rule build_fields_keys [OF s(1)])
    have n1: "''track_audio_features_spotify'' \<notin> set (map fst fs)"
      unfolding keys by (rule spotify_track_keys(2))
    have a: "map_of ((''spotify_artist_id'', aid) # fs @ [(''track_audio_features_spotify'', features)]) out = Some u"
      if "(out, a) \<in> set spotify_track_fields" "field_key a = Some k" "map_of d k = None" for out a k
    proof -
      from that(1) have i: "out \<in> set (map fst fs)" unfolding keys by force
      have "''spotify_artist_id'' \<notin> set (map fst fs)"
        unfolding keys by (rule spotify_track_keys(1))
      with i have "out \<noteq> ''spotify_artist_id''" by blast
      then have "map_of ((''spotify_artist_id'', aid) # fs @ [(''track_audio_features_spotify'', features)]) out
          = map_of (fs @ [(''track_audio_features_spotify'', features)]) out" by simp
      also have "\<dots> = map_of fs out" using i by (rule map_of_append_in)
      also have "\<dots> = Some (field_default u a)"
        by (rule build_fields_lookup [OF s(1) spotify_track_keys(3) that])
      finally show ?thesis using spotify_fields_default [OF that(1)] by simp
    qed
    have b: "map_of ((''spotify_artist_id'', aid) # fs @ [(''track_audio_features_spotify'', features)])
               ''track_audio_features_spotify'' = Some (PDict [])"
      if "map_of d ''id'' = None"
    proof -
      from spotify_track_entry_total [OF that, of u c aid] h s have "features = PDict []" by auto
      moreover have "map_of (fs @ [(''track_audio_features_spotify'', features)]) ''track_audio_features_spotify''
          = Some features" unfolding map_of_append_notin [OF n1] by simp
      ultimately show ?thesis by simp
    qed
    let ?rec = "(''spotify_artist_id'', aid) # fs @ [(''track_audio_features_spotify'', features)]"
    show ?thesis
    proof (intro exI conjI allI impI)
      show "r = PDict ?rec" by (rule s(2))
    next
      fix out a k
      assume "(out, a) \<in> set spotify_track_fields \<and> field_key a = Some k \<and> map_of d k = None"
      then show "map_of ?rec out = Some u" using a by (elim conjE)
    next
      assume "map_of d ''id'' = None"
      then show "map_of ?rec ''track_audio_features_spotify'' = Some (PDict [])" by (rule b)
    qed
  qed
  from t2 have t2': "\<forall>r. d \<noteq> [] \<and> build_genius_artist_track u (PDict d) = Inr r \<longrightarrow>
         (\<exists>fs. r = PDict fs
            \<and> (\<forall>out a k. (out, a) \<in> set genius_track_fields \<and> field_key a = Some k
                   \<and> map_of d k = None \<longrightarrow> map_of fs out = Some u)
            \<and> (map_of d ''primary_artist'' = None \<longrightarrow> map_of fs ''primary_artist'' = Some u)
            \<and> (map_of d ''primary_artists'' = None \<longrightarrow> map_of fs ''primary_artists'' = Some (PList []))
            \<and> (map_of d ''featured_artists'' = None \<longrightarrow>
                   map_of fs ''genius_featured_artists'' = Some (PList [])))"
    by (intro allI impI) (elim conjE)
  from a2 have a2': "\<forall>r. build_genius_artist_data u (PDict d) = Inr r \<longrightarrow>
         (\<exists>fs. r = PDict fs
            \<and> (\<forall>out a k. (out, a) \<in> set genius_artist_fields \<and> field_key a = Some k
                   \<and> map_of d k = None \<longrightarrow> map_of fs out = Some (field_default u a))
            \<and> (map_of d ''songs'' = None \<longrightarrow> map_of fs ''genius_tracks'' = Some (PList [])))"
    by (intro allI impI)
  from s2 have s2': "\<forall>r. spotify_track_entry u c aid (PDict d) = Inr r \<longrightarrow>
         (\<exists>fs. r = PDict fs
            \<and> (\<forall>out a k. (out, a) \<in> set spotify_track_fields \<and> field_key a = Some k
                   \<and> map_of d k = None \<longrightarrow> map_of fs out = Some u)
            \<and> (map_of d ''id'' = None \<longrightarrow> map_of fs ''track_audio_features_spotify'' = Some (PDict [])))"
    by (intro allI impI)
  show ?thesis by (intro conjI t1 t2' a1 a2' s1 s2')
qed

theorem builders_missing_fields_witness:
  "(\<exists>fs. build_genius_artist_track (PStr ''UNKNOWN'') (PDict [(''id'', PInt 10)]) = Inr (PDict fs)
        \<and> map_of fs ''genius_title'' = Some (PStr ''UNKNOWN'')
        \<and> map_of fs ''primary_artists'' = Some (PList []))
   \<and> (\<exists>fs. build_genius_artist_data (PStr ''UNKNOWN'') (PDict [(''id'', PInt 10)]) = Inr (PDict fs)
        \<and> map_of fs ''genius_artist_name'' = Some (PStr ''UNKNOWN'')
        \<and> map_of fs ''genius_alternate_names'' = Some (PList [])
        \<and> map_of fs ''genius_tracks'' = Some (PList []))
   \<and> (\<exists>fs. spotify_track_entry (PStr ''UNKNOWN'')
            \<lparr> sp_search = (\<lambda>artist_name. Inr PNone),
              sp_artist_related_artists = (\<lambda>artist_id. Inr PNone),
              sp_artist_albums = (\<lambda>artist_id album_type. Inr PNone),
              sp_album_tracks = (\<lambda>album_id. Inr PNone),
              sp_next = (\<lambda>results. Inr PNone),
              sp_audio_features = (\<lambda>track_id. Inr (PList [PNone])) \<rparr>
            (PStr ''a1'') (PDict [(''name'', PStr ''Song'')]) = Inr (PDict fs)
        \<and> map_of fs ''spotify_track_id'' = Some (PStr ''UNKNOWN'')
        \<and> map_of fs ''track_audio_features_spotify'' = Some (PDict []))"
proof -
  let ?u = "PStr ''UNKNOWN''"
  let ?c = "\<lparr> sp_search = (\<lambda>artist_name. Inr PNone),
              sp_artist_related_artists = (\<lambda>artist_id. Inr PNone),
              sp_artist_albums = (\<lambda>artist_id album_type. Inr PNone),
              sp_album_tracks = (\<lambda>album_id. Inr PNone),
              sp_next = (\<lambda>results. Inr PNone),
              sp_audio_features = (\<lambda>track_id. Inr (PList [PNone])) \<rparr>"
  let ?d = "[(''id'', PInt 10)]"
  let ?e = "[(''name'', PStr ''Song'')]"
  note g = builders_missing_fields [of ?u ?d ?c "PStr ''a1''"]
  note s = builders_missing_fields [of ?u ?e ?c "PStr ''a1''"]
  have absent: "map_of ?d ''primary_artists'' = None" "map_of ?d ''title'' = None"
    "map_of ?d ''songs'' = None" "map_of ?d ''name'' = None" "map_of ?d ''alternate_names'' = None"
    "map_of ?e ''id'' = None" "?d \<noteq> []"
    by simp_all
  have mem: "(''genius_title'', Get ''title'') \<in> set genius_track_fields"
    "(''genius_artist_name'', Get ''name'') \<in> set genius_artist_fields"
    "(''genius_alternate_names'', GetOr ''alternate_names'' (PList [])) \<in> set genius_artist_fields"
    "(''spotify_track_id'', Get ''id'') \<in> set spotify_track_fields"
    by (simp_all add: genius_track_fields_def genius_artist_fields_def spotify_track_fields_def)
  have keyf: "field_key (Get ''title'') = Some ''title''" "field_key (Get ''name'') = Some ''name''"
    "field_key (GetOr ''alternate_names'' (PList [])) = Some ''alternate_names''"
    "field_key (Get ''id'') = Some ''id''"
    by simp_all
  have track: "\<exists>fs. build_genius_artist_track ?u (PDict ?d) = Inr (PDict fs)
        \<and> map_of fs ''genius_title'' = Some ?u
        \<and> map_of fs ''primary_artists'' = Some (PList [])"
  proof (cases "build_genius_artist_track ?u (PDict ?d)")
    case (Inl e)
    with g absent(1) show ?thesis by blast
  next
    case (Inr r)
    with g absent(7) obtain fs where fs: "r = PDict fs"
      "\<forall>out a k. (out, a) \<in> set genius_track_fields \<and> field_key a = Some k
                   \<and> map_of ?d k = None \<longrightarrow> map_of fs out = Some ?u"
      "map_of ?d ''primary_artists'' = None \<longrightarrow> map_of fs ''primary_artists'' = Some (PList [])"
      by blast
    from fs(2) mem(1) keyf(1) absent(2) have "map_of fs ''genius_title'' = Some ?u" by blast
    with fs(1,3) absent(1) Inr show ?thesis by blast
  qed
  have artist: "\<exists>fs. build_genius_artist_data ?u (PDict ?d) = Inr (PDict fs)
        \<and> map_of fs ''genius_artist_name'' = Some ?u
        \<and> map_of fs ''genius_alternate_names'' = Some (PList [])
        \<and> map_of fs ''genius_tracks'' = Some (PList [])"
  proof (cases "build_genius_artist_data ?u (PDict ?d)")
    case (Inl e)
    with g absent(3) show ?thesis by blast
  next
    case (Inr r)
    with g obtain fs where fs: "r = PDict fs"
      "\<forall>out a k. (out, a) \<in> set genius_artist_fields \<and> field_key a = Some k
                   \<and> map_of ?d k = None \<longrightarrow> map_of fs out = Some (field_default ?u a)"
      "map_of ?d ''songs'' = None \<longrightarrow> map_of fs ''genius_tracks'' = Some (PList [])"
      by blast
    from fs(2) mem(2) keyf(2) absent(4)
    have "map_of fs ''genius_artist_name'' = Some (field_default ?u (Get ''name''))" by blast
    moreover from fs(2) mem(3) keyf(3) absent(5)
    have "map_of fs ''genius_alternate_names'' = Some (field_default ?u (GetOr ''alternate_names'' (PList [])))"
      by blast
    ultimately show ?thesis using fs(1,3) absent(3) Inr by simp
  qed
  have entry: "\<exists>fs. spotify_track_entry ?u ?c (PStr ''a1'') (PDict ?e) = Inr (PDict fs)
        \<and> map_of fs ''spotify_track_id'' = Some ?u
        \<and> map_of fs ''track_audio_features_spotify'' = Some (PDict [])"
  proof (cases "spotify_track_entry ?u ?c (PStr ''a1'') (PDict ?e)")
    case (Inl e)
    with s absent(6) show ?thesis by blast
  next
    case (Inr r)
    with s obtain fs where fs: "r = PDict fs"
      "\<forall>out a k. (out, a) \<in> set spotify_track_fields \<and> field_key a = Some k
                   \<and> map_of ?e k = None \<longrightarrow> map_of fs out = Some ?u"
      "map_of ?e ''id'' = None \<longrightarrow> map_of fs ''track_audio_features_spotify'' = Some (PDict [])"
      by blast
    from fs(2) mem(4) keyf(4) absent(6) have "map_of fs ''spotify_track_id'' = Some ?u" by blast
    with fs(1,3) absent(6) Inr show ?thesis by blast
  qed
  from track artist entry show ?thesis by (intro conjI)
qed

section \<open>Properties of the paginated fetches\<close>

lemma hashable_cases:
  "hashable k \<Longrightarrow> k = PNone \<or> (\<exists>b. k = PBool b) \<or> (\<exists>i. k = PInt i) \<or> (\<exists>s. k = PStr s)"
  by (cases k) auto

lemma py_eq_sym_hashable:
  "hashable a \<Longrightarrow> hashable b \<Longrightarrow> py_eq a b = py_eq b a"
  by (cases a; cases b) auto

lemma py_eq_trans_hashable:
  "hashable a \<Longrightarrow> hashable b \<Longrightarrow> hashable c \<Longrightarrow> py_eq a b \<Longrightarrow> py_eq b c \<Longrightarrow> py_eq a c"
  by (cases a; cases b; cases c) (auto split: if_splits)

lemma accumulate_pages_chain:
  "page_chain next_page p pages \<Longrightarrow>
     accumulate_pages next_page acc p = Some (Inr (acc @ concat pages))"
proof (induction pages arbitrary: p acc)
  case Nil
  then show ?case by (subst accumulate_pages.simps) simp
next
  case (Cons xs rest)
  from Cons.prems obtain items n where p:
    "truthy p" "subscript_key p ''items'' = Inr items" "py_iter items = Inr xs"
    "subscript_key p ''next'' = Inr n"
    by (auto split: sum.splits)
  show ?case
  proof (cases "truthy n")
    case True
    with Cons.prems p obtain p2 where p2: "next_page p = Inr p2" "page_chain next_page p2 rest"
      by (auto split: sum.splits)
    from Cons.IH [OF p2(2), of "acc @ xs"] p p2(1) True show ?thesis
      by (subst accumulate_pages.simps) simp
  next
    case False
    with Cons.prems p have "rest = []" by simp
    with p False show ?thesis by (subst accumulate_pages.simps) simp
  qed
qed

lemma last_match_None_iff: "last_match P xs = None \<longleftrightarrow> (\<forall>x \<in> set xs. \<not> P x)"
  by (induction xs) (auto split: option.splits)

lemma last_match_SomeD:
  "last_match P xs = Some y \<Longrightarrow> \<exists>pre post. xs = pre @ y # post \<and> P y \<and> (\<forall>z \<in> set post. \<not> P z)"
proof (induction xs)
  case Nil
  then show ?case by simp
next
  case (Cons x xs)
  show ?case
  proof (cases "last_match P xs")
    case None
    with Cons.prems have "y = x" "P x" by (auto split: if_splits)
    moreover from None have "\<forall>z \<in> set xs. \<not> P z" by (simp add: last_match_None_iff)
    ultimately have "x # xs = [] @ y # xs \<and> P y \<and> (\<forall>z \<in> set xs. \<not> P z)" by simp
    then show ?thesis by blast
  next
    case (Some w)
    with Cons.prems have "last_match P xs = Some y" by simp
    from Cons.IH [OF this] obtain pre post where "xs = pre @ y # post" "P y" "\<forall>z \<in> set post. \<not> P z"
      by blast
    then have "x # xs = (x # pre) @ y # post \<and> P y \<and> (\<forall>z \<in> set post. \<not> P z)" by simp
    then show ?thesis by blast
  qed
qed

lemma last_match_split:
  "P b \<Longrightarrow> \<forall>z \<in> set post. \<not> P z \<Longrightarrow> last_match P (pre @ b # post) = Some b"
proof (induction pre)
  case Nil
  then have "last_match P post = None" by (simp add: last_match_None_iff)
  with Nil show ?case by simp
next
  case (Cons x pre)
  then show ?case by simp
qed

lemma pydict_lookup_set:
  assumes "\<forall>kv \<in> set acc. hashable (fst kv)" "hashable k" "hashable k'"
  shows "pydict_lookup (pydict_set acc k v) k' = (if py_eq k k' then Some v else pydict_lookup acc k')"
  using assms(1)
proof (induction acc)
  case Nil
  then show ?case by simp
next
  case (Cons kv acc)
  obtain k2 v2 where kv: "kv = (k2, v2)" by (cases kv)
  with Cons.prems have h2: "hashable k2" by simp
  show ?case
  proof (cases "py_eq k2 k")
    case True
    have "py_eq k2 k' = py_eq k k'"
      using True py_eq_trans_hashable [OF h2 assms(2,3)] py_eq_trans_hashable [OF assms(2) h2 assms(3)]
        py_eq_sym_hashable [OF h2 assms(2)] by blast
    with True kv show ?thesis by simp
  next
    case False
    have "\<not> py_eq k k'" if "py_eq k2 k'"
      using that False py_eq_trans_hashable [OF h2 assms(3,2)] py_eq_sym_hashable [OF assms(2,3)] by blast
    with False kv Cons show ?thesis by auto
  qed
qed

lemma pydict_set_keys:
  "fst ` set (pydict_set acc k v) \<subseteq> insert k (fst ` set acc)"
proof (induction acc k v rule: pydict_set.induct)
  case (1 k v)
  then show ?case by simp
next
  case (2 k2 v2 rest k v)
  show ?case
  proof (cases "py_eq k2 k")
    case True
    then show ?thesis by auto
  next
    case False
    with 2 show ?thesis by auto
  qed
qed

lemma pydict_set_entries:
  "kv \<in> set (pydict_set acc k v) \<Longrightarrow>
     kv \<in> set acc \<or> kv = (k, v) \<or> (\<exists>k2 v2. (k2, v2) \<in> set acc \<and> py_eq k2 k \<and> kv = (k2, v))"
proof (induction acc k v rule: pydict_set.induct)
  case (1 k v)
  then show ?case by simp
next
  case (2 k2 v2 rest k v)
  show ?case
  proof (cases "py_eq k2 k")
    case True
    with 2(2) show ?thesis by auto
  next
    case False
    with 2(2) have "kv = (k2, v2) \<or> kv \<in> set (pydict_set rest k v)" by simp
    then show ?thesis
    proof
      assume "kv = (k2, v2)" then show ?thesis by simp
    next
      assume "kv \<in> set (pydict_set rest k v)"
      from 2(1) [OF False this] show ?thesis by auto
    qed
  qed
qed

lemma pydict_set_keys_distinct:
  assumes "keys_distinct acc" "\<forall>kv \<in> set acc. hashable (fst kv)" "hashable k"
  shows "keys_distinct (pydict_set acc k v)"
  using assms(1,2)
proof (induction acc)
  case Nil
  then show ?case by simp
next
  case (Cons kv acc)
  obtain k2 v2 where kv: "kv = (k2, v2)" by (cases kv)
  show ?case
  proof (cases "py_eq k2 k")
    case True
    with Cons.prems kv show ?thesis by simp
  next
    case False
    from Cons.prems kv have d: "\<forall>e \<in> set acc. \<not> py_eq k2 (fst e)" "keys_distinct acc"
      and h: "\<forall>e \<in> set acc. hashable (fst e)" "hashable k2" by auto
    have "\<not> py_eq k2 (fst e)" if "e \<in> set (pydict_set acc k v)" for e
    proof -
      from that pydict_set_keys [of acc k v] have "fst e = k \<or> fst e \<in> fst ` set acc" by auto
      with False d(1) show ?thesis by auto
    qed
    with False kv Cons.IH [OF d(2) h(1)] show ?thesis by simp
  qed
qed

lemma has_idD: "has_id x \<Longrightarrow> \<exists>k. item_id x = Some k \<and> hashable k"
  by (auto simp: has_id_def split: option.splits)

lemma item_id_subscript: "item_id x = Some k \<Longrightarrow> subscript_key x ''id'' = Inr k"
  by (cases x) auto

lemma same_id_iff:
  "same_id x y \<longleftrightarrow> (\<exists>kx ky. item_id x = Some kx \<and> item_id y = Some ky \<and> py_eq kx ky)"
  by (auto simp: same_id_def id_matches_def split: option.splits)

lemma id_matches_iff:
  "id_matches k x \<longleftrightarrow> (\<exists>kx. item_id x = Some kx \<and> py_eq kx k)"
  by (auto simp: id_matches_def split: option.splits)

lemma same_id_refl: "has_id x \<Longrightarrow> same_id x x"
  by (auto simp: same_id_iff py_eq_refl dest: has_idD)

lemma same_id_sym: "has_id x \<Longrightarrow> has_id y \<Longrightarrow> same_id x y \<Longrightarrow> same_id y x"
proof -
  assume "has_id x" "has_id y" "same_id x y"
  then obtain kx ky where k: "item_id x = Some kx" "item_id y = Some ky" "py_eq kx ky"
    "hashable kx" "hashable ky"
    by (auto simp: same_id_iff dest!: has_idD)
  from k(3) py_eq_sym_hashable [OF k(4,5)] have "py_eq ky kx" by simp
  with k(1,2) show ?thesis by (auto simp: same_id_iff)
qed

lemma same_id_trans:
  "has_id x \<Longrightarrow> has_id y \<Longrightarrow> has_id z \<Longrightarrow> same_id x y \<Longrightarrow> same_id y z \<Longrightarrow> same_id x z"
proof -
  assume "has_id x" "has_id y" "has_id z" "same_id x y" "same_id y z"
  then obtain kx ky kz where k: "item_id x = Some kx" "item_id y = Some ky" "item_id z = Some kz"
    "py_eq kx ky" "py_eq ky kz" "hashable kx" "hashable ky" "hashable kz"
    by (auto simp: same_id_iff dest!: has_idD)
  from py_eq_trans_hashable [OF k(6,7,8) k(4,5)] k(1,3) show ?thesis
    by (auto simp: same_id_iff)
qed

lemma entries_ok_set:
  assumes "entries_ok acc" "item_id a = Some k" "hashable k"
  shows "entries_ok (pydict_set acc k a)"
  unfolding entries_ok_def
proof
  fix kv assume "kv \<in> set (pydict_set acc k a)"
  from pydict_set_entries [OF this]
  consider "kv \<in> set acc" | "kv = (k, a)"
    | k2 v2 where "(k2, v2) \<in> set acc" "py_eq k2 k" "kv = (k2, a)" by blast
  then show "hashable (fst kv) \<and> has_id (snd kv) \<and> id_matches (fst kv) (snd kv)"
  proof cases
    case 1
    with assms(1) show ?thesis by (simp add: entries_ok_def)
  next
    case 2
    with assms(2,3) show ?thesis by (simp add: has_id_def id_matches_iff py_eq_refl)
  next
    case 3
    from 3(1) assms(1) have h2: "hashable k2" by (auto simp: entries_ok_def)
    from 3(2) py_eq_sym_hashable [OF h2 assms(3)] have "py_eq k k2" by simp
    with 3(3) h2 assms(2,3) show ?thesis by (simp add: has_id_def id_matches_iff)
  qed
qed

lemma unique_by_id_fold:
  assumes "\<forall>a \<in> set albums. has_id a" "entries_ok acc" "keys_distinct acc"
  shows "\<exists>u. unique_by_id acc albums = Inr u \<and> entries_ok u \<and> keys_distinct u
           \<and> (\<forall>k. hashable k \<longrightarrow>
                 pydict_lookup u k =
                   (case last_match (id_matches k) albums of
                      Some y \<Rightarrow> Some y | None \<Rightarrow> pydict_lookup acc k))"
  using assms
proof (induction albums arbitrary: acc)
  case Nil
  then show ?case by simp
next
  case (Cons a albums)
  from Cons.prems(1) obtain k where k: "item_id a = Some k" "hashable k"
    by (auto dest: has_idD)
  let ?acc = "pydict_set acc k a"
  have hk: "\<forall>kv \<in> set acc. hashable (fst kv)"
    using Cons.prems(2) by (simp add: entries_ok_def)
  have ok: "entries_ok ?acc" by (rule entries_ok_set [OF Cons.prems(2) k])
  have kd: "keys_distinct ?acc" by (rule pydict_set_keys_distinct [OF Cons.prems(3) hk k(2)])
  from Cons.prems(1) have rest: "\<forall>a \<in> set albums. has_id a" by simp
  from Cons.IH [OF rest ok kd] obtain u where u:
    "unique_by_id ?acc albums = Inr u" "entries_ok u" "keys_distinct u"
    "\<forall>k'. hashable k' \<longrightarrow>
         pydict_lookup u k' =
           (case last_match (id_matches k') albums of
              Some y \<Rightarrow> Some y | None \<Rightarrow> pydict_lookup ?acc k')"
    by blast
  have step: "unique_by_id acc (a # albums) = Inr u"
    using u(1) k item_id_subscript [OF k(1)] by simp
  have look: "pydict_lookup u k' =
           (case last_match (id_matches k') (a # albums) of
              Some y \<Rightarrow> Some y | None \<Rightarrow> pydict_lookup acc k')" if hk': "hashable k'" for k'
  proof -
    have m: "id_matches k' a = py_eq k k'" using k(1) by (simp add: id_matches_iff)
    from u(4) hk' have "pydict_lookup u k' =
           (case last_match (id_matches k') albums of
              Some y \<Rightarrow> Some y | None \<Rightarrow> pydict_lookup ?acc k')" by blast
    also have "pydict_lookup ?acc k' = (if py_eq k k' then Some a else pydict_lookup acc k')"
      by (rule pydict_lookup_set [OF hk k(2) hk'])
    finally show ?thesis using m by (simp split: option.splits)
  qed
  from step u(2,3) look show ?case by blast
qed

lemma keys_distinct_nth:
  "keys_distinct u \<Longrightarrow> i < j \<Longrightarrow> j < length u \<Longrightarrow> \<not> py_eq (fst (u ! i)) (fst (u ! j))"
proof (induction u arbitrary: i j)
  case Nil
  then show ?case by simp
next
  case (Cons kv u)
  obtain k v where kv: "kv = (k, v)" by (cases kv)
  from Cons.prems(2) obtain j' where j: "j = Suc j'" by (cases j) auto
  show ?case
  proof (cases i)
    case 0
    from Cons.prems(3) j have "u ! j' \<in> set u" by simp
    with Cons.prems(1) kv 0 j show ?thesis by simp
  next
    case (Suc i')
    with Cons.prems j kv Cons.IH [of i' j'] show ?thesis by simp
  qed
qed

lemma pydict_lookup_mem:
  "keys_distinct u \<Longrightarrow> (k, x) \<in> set u \<Longrightarrow> pydict_lookup u k = Some x"
proof (induction u)
  case Nil
  then show ?case by simp
next
  case (Cons kv u)
  obtain k2 v2 where kv: "kv = (k2, v2)" by (cases kv)
  show ?case
  proof (cases "(k, x) = (k2, v2)")
    case True
    with kv show ?thesis by (simp add: py_eq_refl)
  next
    case False
    with Cons.prems kv have m: "(k, x) \<in> set u" by auto
    with Cons.prems(1) kv have "\<not> py_eq k2 k" by auto
    with Cons.IH [OF _ m] Cons.prems(1) kv show ?thesis by simp
  qed
qed

lemma pydict_lookup_SomeD:
  "pydict_lookup u k = Some x \<Longrightarrow> x \<in> snd ` set u"
  by (induction u k rule: pydict_lookup.induct) (auto split: if_splits)

lemma unique_by_id_spec:
  assumes ids: "\<forall>a \<in> set albums. has_id a"
  shows "\<exists>u. unique_by_id [] albums = Inr u
     \<and> set (map snd u) \<subseteq> set albums
     \<and> (\<forall>i j. i < j \<and> j < length u \<longrightarrow> \<not> same_id (map snd u ! i) (map snd u ! j))
     \<and> (\<forall>pre b post. albums = pre @ b # post \<and> (\<forall>y \<in> set post. \<not> same_id y b)
            \<longrightarrow> b \<in> set (map snd u))
     \<and> (\<forall>x \<in> set (map snd u). \<exists>pre post. albums = pre @ x # post \<and> (\<forall>y \<in> set post. \<not> same_id y x))"
proof -
  have "entries_ok []" "keys_distinct []" by (simp_all add: entries_ok_def)
  from unique_by_id_fold [OF ids this] obtain u where u:
    "unique_by_id [] albums = Inr u" "entries_ok u" "keys_distinct u"
    and look: "\<And>k. hashable k \<Longrightarrow> pydict_lookup u k = last_match (id_matches k) albums"
    by (auto split: option.splits) (metis option.exhaust option.simps(4,5))
  have h3: "\<exists>pre post. albums = pre @ x # post \<and> (\<forall>y \<in> set post. \<not> same_id y x)"
    if "x \<in> set (map snd u)" for x
  proof -
    from that obtain k where kx: "(k, x) \<in> set u" by auto
    with u(2) have ok: "hashable k" "has_id x" "id_matches k x" by (auto simp: entries_ok_def)
    from pydict_lookup_mem [OF u(3) kx] look [OF ok(1)]
    have "last_match (id_matches k) albums = Some x" by simp
    from last_match_SomeD [OF this] obtain pre post where sp:
      "albums = pre @ x # post" "\<forall>z \<in> set post. \<not> id_matches k z" by blast
    from ok(2,3) obtain kx' where kx': "item_id x = Some kx'" "hashable kx'" "py_eq kx' k"
      by (auto simp: id_matches_iff dest!: has_idD)
    have "\<not> same_id y x" if y: "y \<in> set post" for y
    proof
      assume "same_id y x"
      with kx'(1) obtain ky where ky: "item_id y = Some ky" "py_eq ky kx'"
        by (auto simp: same_id_iff)
      from y sp(1) ids have "has_id y" by simp
      with ky(1) have "hashable ky" by (auto dest: has_idD)
      from py_eq_trans_hashable [OF this kx'(2) ok(1) ky(2) kx'(3)] ky(1)
      have "id_matches k y" by (simp add: id_matches_iff)
      with sp(2) y show False by blast
    qed
    with sp(1) show ?thesis by blast
  qed
  have h0: "set (map snd u) \<subseteq> set albums"
  proof
    fix x assume "x \<in> set (map snd u)"
    from h3 [OF this] show "x \<in> set albums" by auto
  qed
  have h2: "b \<in> set (map snd u)"
    if "albums = pre @ b # post" "\<forall>y \<in> set post. \<not> same_id y b" for pre b post
  proof -
    from that(1) ids have "has_id b" by simp
    then obtain kb where kb: "item_id b = Some kb" "hashable kb" by (auto dest: has_idD)
    have pb: "id_matches kb b" using kb(1) by (simp add: id_matches_iff py_eq_refl)
    have "\<forall>z \<in> set post. \<not> id_matches kb z"
      using that(2) kb(1) by (auto simp: same_id_iff id_matches_iff)
    from last_match_split [of "id_matches kb", OF pb this, of pre] that(1) look [OF kb(2)]
    have "pydict_lookup u kb = Some b" by simp
    from pydict_lookup_SomeD [OF this] show ?thesis by simp
  qed
  have h1: "\<not> same_id (map snd u ! i) (map snd u ! j)" if ij: "i < j" "j < length u" for i j
  proof
    assume s: "same_id (map snd u ! i) (map snd u ! j)"
    from ij have mi: "u ! i \<in> set u" and mj: "u ! j \<in> set u" by simp_all
    from ij have xi: "map snd u ! i = snd (u ! i)" and xj: "map snd u ! j = snd (u ! j)" by simp_all
    from mi u(2) obtain ki where ki: "item_id (snd (u ! i)) = Some ki" "hashable ki"
      "py_eq ki (fst (u ! i))" "hashable (fst (u ! i))"
      by (auto simp: entries_ok_def id_matches_iff dest!: has_idD)
    from mj u(2) obtain kj where kj: "item_id (snd (u ! j)) = Some kj" "hashable kj"
      "py_eq kj (fst (u ! j))" "hashable (fst (u ! j))"
      by (auto simp: entries_ok_def id_matches_iff dest!: has_idD)
    from s ki(1) kj(1) have e: "py_eq ki kj" unfolding xi xj by (simp add: same_id_iff)
    from ki(3) py_eq_sym_hashable [OF ki(2,4)] have "py_eq (fst (u ! i)) ki" by simp
    from py_eq_trans_hashable [OF ki(4,2) kj(2) this e]
    have "py_eq (fst (u ! i)) kj" .
    from py_eq_trans_hashable [OF ki(4) kj(2,4) this kj(3)]
    have "py_eq (fst (u ! i)) (fst (u ! j))" .
    with keys_distinct_nth [OF u(3) ij] show False by blast
  qed
  from u(1) h0 h1 h2 h3 show ?thesis by blast
qed

lemma get_artist_albums_chain:
  assumes "sp_artist_albums c aid (join_comma types) = Inr p" "page_chain (sp_next c) p pages"
    "unique_by_id [] (concat pages) = Inr u"
  shows "get_artist_albums c aid types = Some (Inr (map snd u))"
  using assms accumulate_pages_chain [OF assms(2), of "[]"]
  by (simp add: get_artist_albums_def)

lemma get_album_tracks_chain:
  assumes "sp_album_tracks c alb = Inr q" "page_chain (sp_next c) q tpages"
  shows "get_album_tracks c alb = Some (Inr (concat tpages))"
  using assms accumulate_pages_chain [OF assms(2), of "[]"]
  by (simp add: get_album_tracks_def)

lemma last_with_same_id:
  assumes ids: "\<forall>a \<in> set albums. has_id a" and a: "a \<in> set albums"
  shows "\<exists>pre b post. albums = pre @ b # post \<and> same_id b a \<and> (\<forall>y \<in> set post. \<not> same_id y b)"
proof -
  from ids a obtain ka where ka: "item_id a = Some ka" "hashable ka" by (auto dest: has_idD)
  have "id_matches ka a" using ka(1) by (simp add: id_matches_iff py_eq_refl)
  with a have "last_match (id_matches ka) albums \<noteq> None" by (auto simp: last_match_None_iff)
  then obtain b where "last_match (id_matches ka) albums = Some b" by auto
  from last_match_SomeD [OF this] obtain pre post where sp:
    "albums = pre @ b # post" "id_matches ka b" "\<forall>z \<in> set post. \<not> id_matches ka z" by blast
  from sp(2) obtain kb where kb: "item_id b = Some kb" "py_eq kb ka" by (auto simp: id_matches_iff)
  from sp(1) ids have "has_id b" by simp
  with kb(1) have hkb: "hashable kb" by (auto dest: has_idD)
  have "\<not> same_id y b" if y: "y \<in> set post" for y
  proof
    assume "same_id y b"
    with kb(1) obtain ky where ky: "item_id y = Some ky" "py_eq ky kb" by (auto simp: same_id_iff)
    from y sp(1) ids have "has_id y" by simp
    with ky(1) have "hashable ky" by (auto dest: has_idD)
    from py_eq_trans_hashable [OF this hkb ka(2) ky(2) kb(2)] ky(1)
    have "id_matches ka y" by (simp add: id_matches_iff)
    with sp(3) y show False by blast
  qed
  moreover have "same_id b a" using kb ka(1) by (simp add: same_id_iff)
  ultimately show ?thesis using sp(1) by blast
qed

lemma index_unique_by_id:
  assumes h1: "\<forall>i j. i < j \<and> j < length r \<longrightarrow> \<not> same_id (r ! i) (r ! j)"
    and ids: "\<forall>x \<in> set r. has_id x"
    and i: "i < length r" "i' < length r" and s: "same_id (r ! i) (r ! i')"
  shows "i = i'"
proof (rule ccontr)
  assume ne: "i \<noteq> i'"
  from i ids have hi: "has_id (r ! i)" "has_id (r ! i')" by simp_all
  from ne consider "i < i'" | "i' < i" by linarith
  then show False
  proof cases
    case 1
    with h1 i(2) s show False by blast
  next
    case 2
    from same_id_sym [OF hi s] h1 2 i(1) show False by blast
  qed
qed

lemma demo_track_chain:
  "page_chain (sp_next demo_client) demo_track_page_1 [[demo_item ''t1'' 1], [demo_item ''t1'' 2]]"
  by (simp add: demo_client_def demo_track_page_1_def demo_track_page_2_def demo_album_page_1_def
        demo_album_page_2_def demo_page_def demo_item_def)

lemma demo_album_chain:
  "page_chain (sp_next demo_client) demo_album_page_1
     [[demo_item ''a'' 1, demo_item ''b'' 1], [demo_item ''c'' 1, demo_item ''d'' 1],
      [demo_item ''e'' 1, demo_item ''a'' 3]]"
  by (simp add: demo_client_def demo_album_page_1_def demo_album_page_2_def demo_album_page_3_def
        demo_page_def demo_item_def)

lemma demo_items_have_id: "has_id (demo_item i v)"
  by (simp add: has_id_def demo_item_def)

text \<open>
  C3, as stated, fails for the album-tracks traversal: \<open>get_album_tracks\<close> returns what it
  accumulated. With the same identifier on both pages, both items are in the result.
\<close>

theorem album_tracks_keeps_duplicates:
  "get_album_tracks demo_client (PStr ''album1'') = Some (Inr [demo_item ''t1'' 1, demo_item ''t1'' 2])
   \<and> same_id (demo_item ''t1'' 1) (demo_item ''t1'' 2)
   \<and> demo_item ''t1'' 1 \<noteq> demo_item ''t1'' 2"
proof -
  have h1: "sp_album_tracks demo_client (PStr ''album1'') = Inr demo_track_page_1"
    by (simp add: demo_client_def)
  from get_album_tracks_chain [OF h1 demo_track_chain]
  show ?thesis by (simp add: same_id_def id_matches_def demo_item_def)
qed

text \<open>
  C3, amended. When the provider serves a finite run of pages, \<open>get_album_tracks\<close> returns
  the items of all pages in the order fetched, duplicates included; \<open>get_artist_albums\<close>,
  when every item carries a hashable \<open>id\<close>, returns a list of fetched items in which no two
  items have the same identifier, every fetched identifier is represented, and every item
  is the last one fetched with its identifier (last write wins).
\<close>

theorem pagination_results:
  assumes "sp_album_tracks c alb = Inr q" and "page_chain (sp_next c) q tpages"
    and "sp_artist_albums c aid (join_comma types) = Inr p" and "page_chain (sp_next c) p pages"
    and "\<forall>a \<in> set (concat pages). has_id a"
  shows "get_album_tracks c alb = Some (Inr (concat tpages))
       \<and> (\<exists>r. get_artist_albums c aid types = Some (Inr r)
              \<and> set r \<subseteq> set (concat pages)
              \<and> (\<forall>i j. i < j \<and> j < length r \<longrightarrow> \<not> same_id (r ! i) (r ! j))
              \<and> (\<forall>x \<in> set r. \<exists>pre post. concat pages = pre @ x # post
                                         \<and> (\<forall>y \<in> set post. \<not> same_id y x))
              \<and> (\<forall>a \<in> set (concat pages). \<exists>x \<in> set r. same_id x a))"
proof -
  have tracks: "get_album_tracks c alb = Some (Inr (concat tpages))"
    by (rule get_album_tracks_chain [OF assms(1,2)])
  from unique_by_id_spec [OF assms(5)] obtain u where u:
    "unique_by_id [] (concat pages) = Inr u"
    "set (map snd u) \<subseteq> set (concat pages)"
    "\<forall>i j. i < j \<and> j < length u \<longrightarrow> \<not> same_id (map snd u ! i) (map snd u ! j)"
    "\<forall>pre b post. concat pages = pre @ b # post \<and> (\<forall>y \<in> set post. \<not> same_id y b)
            \<longrightarrow> b \<in> set (map snd u)"
    "\<forall>x \<in> set (map snd u). \<exists>pre post. concat pages = pre @ x # post
            \<and> (\<forall>y \<in> set post. \<not> same_id y x)"
    by blast
  have albums: "get_artist_albums c aid types = Some (Inr (map snd u))"
    by (rule get_artist_albums_chain [OF assms(3,4) u(1)])
  have cover: "\<exists>x \<in> set (map snd u). same_id x a" if "a \<in> set (concat pages)" for a
  proof -
    from last_with_same_id [OF assms(5) that] obtain pre b post where
      "concat pages = pre @ b # post" "same_id b a" "\<forall>y \<in> set post. \<not> same_id y b" by blast
    with u(4) show ?thesis by blast
  qed
  have len: "\<forall>i j. i < j \<and> j < length (map snd u) \<longrightarrow> \<not> same_id (map snd u ! i) (map snd u ! j)"
    using u(3) by simp
  from tracks albums u(2) len u(5) cover show ?thesis by blast
qed

theorem pagination_results_witness:
  "get_album_tracks demo_client (PStr ''album1'') = Some (Inr [demo_item ''t1'' 1, demo_item ''t1'' 2])
   \<and> (\<exists>r. get_artist_albums demo_client (PStr ''artist1'') [''album'', ''single''] = Some (Inr r)
          \<and> (\<forall>i j. i < j \<and> j < length r \<longrightarrow> \<not> same_id (r ! i) (r ! j))
          \<and> (\<exists>x \<in> set r. same_id x (demo_item ''a'' 1)))"
proof -
  let ?pages = "[[demo_item ''a'' 1, demo_item ''b'' 1], [demo_item ''c'' 1, demo_item ''d'' 1],
      [demo_item ''e'' 1, demo_item ''a'' 3]]"
  have h1: "sp_album_tracks demo_client (PStr ''album1'') = Inr demo_track_page_1"
    by (simp add: demo_client_def)
  have h3: "sp_artist_albums demo_client (PStr ''artist1'') (join_comma [''album'', ''single''])
              = Inr demo_album_page_1"
    by (simp add: demo_client_def)
  have h5: "\<forall>a \<in> set (concat ?pages). has_id a" by (simp add: demo_items_have_id)
  from pagination_results [OF h1 demo_track_chain h3 demo_album_chain h5]
  obtain r where r:
    "get_album_tracks demo_client (PStr ''album1'')
       = Some (Inr (concat [[demo_item ''t1'' 1], [demo_item ''t1'' 2]]))"
    "get_artist_albums demo_client (PStr ''artist1'') [''album'', ''single''] = Some (Inr r)"
    "\<forall>i j. i < j \<and> j < length r \<longrightarrow> \<not> same_id (r ! i) (r ! j)"
    "\<forall>a \<in> set (concat ?pages). \<exists>x \<in> set r. same_id x a"
    by blast
  from r(4) have "\<exists>x \<in> set r. same_id x (demo_item ''a'' 1)" by simp
  with r(1,2,3) show ?thesis by auto
qed

text \<open>
  C5. For pages whose items carry identifiers, \<open>get_artist_albums\<close> returns a list of
  fetched items with exactly one item for each identifier that was fetched (and no item
  that was not fetched); and an item that is the last one
  with its identifier on its page, while no later page holds that identifier, is the item
  kept for it: it is in the result, and any item of the result with its identifier is this
  item. The witness is the scenario of three pages of two items with one identifier on
  pages one and three.
\<close>

theorem get_artist_albums_last_page_wins:
  assumes "sp_artist_albums c aid (join_comma types) = Inr p" and "page_chain (sp_next c) p pages"
    and "\<forall>a \<in> set (concat pages). has_id a"
  shows "\<exists>r. get_artist_albums c aid types = Some (Inr r)
       \<and> set r \<subseteq> set (concat pages)
       \<and> (\<forall>a \<in> set (concat pages). \<exists>!i. i < length r \<and> same_id (r ! i) a)
       \<and> (\<forall>j pre b post.
             j < length pages \<and> pages ! j = pre @ b # post
           \<and> (\<forall>y \<in> set post. \<not> same_id y b)
           \<and> (\<forall>l. j < l \<and> l < length pages \<longrightarrow> (\<forall>y \<in> set (pages ! l). \<not> same_id y b))
           \<longrightarrow> b \<in> set r \<and> (\<forall>x \<in> set r. same_id x b \<longrightarrow> x = b))"
proof -
  from unique_by_id_spec [OF assms(3)] obtain u where u:
    "unique_by_id [] (concat pages) = Inr u"
    "set (map snd u) \<subseteq> set (concat pages)"
    "\<forall>i j. i < j \<and> j < length u \<longrightarrow> \<not> same_id (map snd u ! i) (map snd u ! j)"
    "\<forall>pre b post. concat pages = pre @ b # post \<and> (\<forall>y \<in> set post. \<not> same_id y b)
            \<longrightarrow> b \<in> set (map snd u)"
    by blast
  define r where "r = map snd u"
  have albums: "get_artist_albums c aid types = Some (Inr r)"
    unfolding r_def by (rule get_artist_albums_chain [OF assms(1,2) u(1)])
  have sub: "set r \<subseteq> set (concat pages)" using u(2) by (simp add: r_def)
  have rid: "\<forall>x \<in> set r. has_id x" using sub assms(3) by blast
  have h1: "\<forall>i j. i < j \<and> j < length r \<longrightarrow> \<not> same_id (r ! i) (r ! j)"
    using u(3) by (simp add: r_def)
  have h2: "b \<in> set r"
    if "concat pages = pre @ b # post" "\<forall>y \<in> set post. \<not> same_id y b" for pre b post
    using u(4) that unfolding r_def by blast
  have one: "\<exists>!i. i < length r \<and> same_id (r ! i) a" if a: "a \<in> set (concat pages)" for a
  proof -
    from last_with_same_id [OF assms(3) a] obtain pre b post where b:
      "concat pages = pre @ b # post" "same_id b a" "\<forall>y \<in> set post. \<not> same_id y b" by blast
    from h2 [OF b(1,3)] obtain i where i: "i < length r" "r ! i = b"
      by (auto simp: in_set_conv_nth)
    have ha: "has_id a" using a assms(3) by blast
    have "i' = i" if i': "i' < length r" "same_id (r ! i') a" for i'
    proof -
      have hr: "has_id (r ! i')" "has_id (r ! i)"
        using rid nth_mem [OF i'(1)] nth_mem [OF i(1)] by blast+
      from b(2) i(2) have "same_id (r ! i) a" by simp
      from same_id_sym [OF hr(2) ha this] have "same_id a (r ! i)" .
      from same_id_trans [OF hr(1) ha hr(2) i'(2) this]
      have "same_id (r ! i') (r ! i)" .
      from index_unique_by_id [OF h1 rid i'(1) i(1) this] show ?thesis .
    qed
    with i b(2) show ?thesis by blast
  qed
  have page: "b \<in> set r \<and> (\<forall>x \<in> set r. same_id x b \<longrightarrow> x = b)"
    if j: "j < length pages" "pages ! j = pre @ b # post" "\<forall>y \<in> set post. \<not> same_id y b"
      "\<forall>l. j < l \<and> l < length pages \<longrightarrow> (\<forall>y \<in> set (pages ! l). \<not> same_id y b)"
    for j pre b post
  proof -
    have "pages = take j pages @ pages ! j # drop (Suc j) pages"
      using j(1) by (rule id_take_nth_drop)
    then have "concat pages = concat (take j pages) @ (pre @ b # post) @ concat (drop (Suc j) pages)"
      using j(2) by (metis concat.simps(2) concat_append)
    then have split: "concat pages = (concat (take j pages) @ pre) @ b # (post @ concat (drop (Suc j) pages))"
      by simp
    have later: "\<not> same_id y b" if y: "y \<in> set (concat (drop (Suc j) pages))" for y
    proof -
      from y obtain ys where ys: "ys \<in> set (drop (Suc j) pages)" "y \<in> set ys" by auto
      then obtain m where m: "m < length (drop (Suc j) pages)" "drop (Suc j) pages ! m = ys"
        by (auto simp: in_set_conv_nth)
      then have l: "ys = pages ! (Suc j + m)" "Suc j + m < length pages" by auto
      have "j < Suc j + m" by simp
      with j(4) l(2) have "\<forall>y \<in> set (pages ! (Suc j + m)). \<not> same_id y b" by blast
      with ys(2) l(1) show ?thesis by blast
    qed
    have "\<forall>y \<in> set (post @ concat (drop (Suc j) pages)). \<not> same_id y b"
      using j(3) later by auto
    from h2 [OF split this] have br: "b \<in> set r" .
    have "x = b" if x: "x \<in> set r" "same_id x b" for x
    proof -
      from x(1) obtain i where i: "i < length r" "r ! i = x" by (auto simp: in_set_conv_nth)
      from br obtain i' where i': "i' < length r" "r ! i' = b" by (auto simp: in_set_conv_nth)
      from x(2) i(2) i'(2) have "same_id (r ! i) (r ! i')" by simp
      from index_unique_by_id [OF h1 rid i(1) i'(1) this] i(2) i'(2) show ?thesis by simp
    qed
    with br show ?thesis by blast
  qed
  show ?thesis
  proof (intro exI conjI ballI allI impI)
    show "get_artist_albums c aid types = Some (Inr r)" by (rule albums)
  next
    show "set r \<subseteq> set (concat pages)" by (rule sub)
  next
    fix a assume "a \<in> set (concat pages)"
    then show "\<exists>!i. i < length r \<and> same_id (r ! i) a" by (rule one)
  next
    fix j pre b post
    assume h: "j < length pages \<and> pages ! j = pre @ b # post
           \<and> (\<forall>y \<in> set post. \<not> same_id y b)
           \<and> (\<forall>l. j < l \<and> l < length pages \<longrightarrow> (\<forall>y \<in> set (pages ! l). \<not> same_id y b))"
    then have "b \<in> set r \<and> (\<forall>x \<in> set r. same_id x b \<longrightarrow> x = b)"
      using page by blast
    then show "b \<in> set r" by blast
  next
    fix j pre b post x
    assume h: "j < length pages \<and> pages ! j = pre @ b # post
           \<and> (\<forall>y \<in> set post. \<not> same_id y b)
           \<and> (\<forall>l. j < l \<and> l < length pages \<longrightarrow> (\<forall>y \<in> set (pages ! l). \<not> same_id y b))"
      and x: "x \<in> set r" "same_id x b"
    from h have "b \<in> set r \<and> (\<forall>x \<in> set r. same_id x b \<longrightarrow> x = b)"
      using page by blast
    with x show "x = b" by blast
  qed
qed

theorem get_artist_albums_last_page_wins_witness:
  "\<exists>r. get_artist_albums demo_client (PStr ''artist1'') [''album'', ''single''] = Some (Inr r)
      \<and> set r \<subseteq> {demo_item ''a'' 1, demo_item ''b'' 1, demo_item ''c'' 1, demo_item ''d'' 1,
                    demo_item ''e'' 1, demo_item ''a'' 3}
      \<and> demo_item ''a'' 3 \<in> set r
      \<and> demo_item ''a'' 1 \<notin> set r
      \<and> (\<exists>!i. i < length r \<and> same_id (r ! i) (demo_item ''a'' 1))"
proof -
  let ?pages = "[[demo_item ''a'' 1, demo_item ''b'' 1], [demo_item ''c'' 1, demo_item ''d'' 1],
      [demo_item ''e'' 1, demo_item ''a'' 3]]"
  have h3: "sp_artist_albums demo_client (PStr ''artist1'') (join_comma [''album'', ''single''])
              = Inr demo_album_page_1"
    by (simp add: demo_client_def)
  have h5: "\<forall>a \<in> set (concat ?pages). has_id a" by (simp add: demo_items_have_id)
  from get_artist_albums_last_page_wins [OF h3 demo_album_chain h5]
  obtain r where r:
    "get_artist_albums demo_client (PStr ''artist1'') [''album'', ''single''] = Some (Inr r)"
    "\<forall>a \<in> set (concat ?pages). \<exists>!i. i < length r \<and> same_id (r ! i) a"
    "set r \<subseteq> set (concat ?pages)"
    "\<forall>j pre b post.
             j < length ?pages \<and> ?pages ! j = pre @ b # post
           \<and> (\<forall>y \<in> set post. \<not> same_id y b)
           \<and> (\<forall>l. j < l \<and> l < length ?pages \<longrightarrow> (\<forall>y \<in> set (?pages ! l). \<not> same_id y b))
           \<longrightarrow> b \<in> set r \<and> (\<forall>x \<in> set r. same_id x b \<longrightarrow> x = b)"
    by blast
  from r(3) have sub: "set r \<subseteq> {demo_item ''a'' 1, demo_item ''b'' 1, demo_item ''c'' 1, demo_item ''d'' 1,
                    demo_item ''e'' 1, demo_item ''a'' 3}" by auto
  have p: "(2::nat) < length ?pages \<and> ?pages ! 2 = [demo_item ''e'' 1] @ demo_item ''a'' 3 # []
           \<and> (\<forall>y \<in> set []. \<not> same_id y (demo_item ''a'' 3))
           \<and> (\<forall>l. 2 < l \<and> l < length ?pages \<longrightarrow> (\<forall>y \<in> set (?pages ! l). \<not> same_id y (demo_item ''a'' 3)))"
  proof (intro conjI allI impI)
    fix l assume "2 < l \<and> l < length ?pages"
    then have "2 < l" "l < 3" by simp_all
    then have False by arith
    then show "\<forall>y \<in> set (?pages ! l). \<not> same_id y (demo_item ''a'' 3)" ..
  qed simp_all
  from r(4) p have k: "demo_item ''a'' 3 \<in> set r"
    "\<forall>x \<in> set r. same_id x (demo_item ''a'' 3) \<longrightarrow> x = demo_item ''a'' 3"
    by blast+
  have "same_id (demo_item ''a'' 1) (demo_item ''a'' 3)" "demo_item ''a'' 1 \<noteq> demo_item ''a'' 3"
    by (simp_all add: same_id_def id_matches_def demo_item_def)
  with k(2) have "demo_item ''a'' 1 \<notin> set r" by blast
  moreover from r(2) have "\<exists>!i. i < length r \<and> same_id (r ! i) (demo_item ''a'' 1)" by simp
  ultimately show ?thesis using r(1) k(1) sub by blast
qed

end
